theory Spec2Isabelle
  imports Main "HOL-Library.Sublist"
begin

section \<open>JavaScript strings\<close>

text \<open>
  A JavaScript string is a sequence of UTF-16 code units. A code unit is modelled as a
  natural number and a string as a list of them, so that the character classes of the
  regular expressions of \<^verbatim>\<open>migrate.js\<close> (\<^verbatim>\<open>\s\<close>, \<^verbatim>\<open>.\<close>, the multiline anchors)
  range over all of Unicode's white space and line terminators. \<open>js\<close> turns an ASCII
  literal into such a string.
\<close>

type_synonym jschar = nat
type_synonym jsstring = "nat list"

definition js :: "string \<Rightarrow> jsstring" where
  "js s = map of_char s"

text \<open>ECMAScript \<^verbatim>\<open>LineTerminator\<close>: LF, CR, U+2028, U+2029.\<close>

definition isLineTerminator :: "jschar \<Rightarrow> bool" where
  "isLineTerminator c \<longleftrightarrow> c = 10 \<or> c = 13 \<or> c = 8232 \<or> c = 8233"

text \<open>
  The class \<^verbatim>\<open>\s\<close>, which is also what \<^verbatim>\<open>String.prototype.trim\<close> strips:
  ECMAScript \<^verbatim>\<open>WhiteSpace\<close> (TAB, VT, FF, SP, NBSP, U+FEFF and the category Zs)
  together with the line terminators.
\<close>

definition isWhiteSpace :: "jschar \<Rightarrow> bool" where
  "isWhiteSpace c \<longleftrightarrow>
     c = 9 \<or> c = 11 \<or> c = 12 \<or> c = 32 \<or> c = 160 \<or> c = 5760 \<or>
     (8192 \<le> c \<and> c \<le> 8202) \<or> c = 8239 \<or> c = 8287 \<or> c = 12288 \<or> c = 65279 \<or>
     isLineTerminator c"

definition trim :: "jsstring \<Rightarrow> jsstring" where
  "trim s = rev (dropWhile isWhiteSpace (rev (dropWhile isWhiteSpace s)))"

text \<open>\<^verbatim>\<open>s.split(sep)\<close> and \<^verbatim>\<open>lines.join(sep)\<close> for a one-character separator.\<close>

fun splitOn :: "jschar \<Rightarrow> jsstring \<Rightarrow> jsstring list" where
  "splitOn sep [] = [[]]"
| "splitOn sep (c # cs) =
     (if c = sep then [] # splitOn sep cs
      else (case splitOn sep cs of
              l # ls \<Rightarrow> (c # l) # ls
            | [] \<Rightarrow> [[c]]))"

fun joinWith :: "jschar \<Rightarrow> jsstring list \<Rightarrow> jsstring" where
  "joinWith sep [] = []"
| "joinWith sep [l] = l"
| "joinWith sep (l # l' # ls) = l @ sep # joinWith sep (l' # ls)"

text \<open>\<^verbatim>\<open>s.startsWith(p)\<close>, \<^verbatim>\<open>s.endsWith(p)\<close> and \<^verbatim>\<open>s.includes(p)\<close>.\<close>

definition startsWith :: "jsstring \<Rightarrow> jsstring \<Rightarrow> bool" where
  "startsWith s p = prefix p s"

definition endsWith :: "jsstring \<Rightarrow> jsstring \<Rightarrow> bool" where
  "endsWith s p = prefix (rev p) (rev s)"

lemma endsWith_suffix: "endsWith s p \<longleftrightarrow> suffix p s"
  by (simp add: endsWith_def suffix_to_prefix)


section \<open>The heading pattern of parseDocumentContent and updateMarkdownLinks\<close>

text \<open>
  Both functions use \<^verbatim>\<open>/^[ \t]*#\s*(.+?)(?:\n+|$)/m\<close>; \<open>parseDocumentContent\<close> first
  tests with \<^verbatim>\<open>/^[ \t]*#\s*(.+?)(?:\n|$)/m\<close>. The flag \<open>many\<close> below tells the two
  apart: it is \<open>True\<close> for the pattern ending in \<^verbatim>\<open>\n+\<close>.

  \<open>lazyTitle\<close> is the lazy group \<^verbatim>\<open>(.+?)\<close> followed by \<^verbatim>\<open>(?:\n+|$)\<close>, once the group
  holds \<open>acc\<close>: the shortest extension is tried first; with the flag \<^verbatim>\<open>m\<close> the
  anchor \<^verbatim>\<open>$\<close> holds at the end of the input and before every line terminator, and
  \<^verbatim>\<open>.\<close> matches everything but a line terminator. The result is the captured group and
  the input left after the match.
\<close>

fun lazyTitle :: "bool \<Rightarrow> jsstring \<Rightarrow> jsstring \<Rightarrow> (jsstring \<times> jsstring) option" where
  "lazyTitle many acc [] = Some (acc, [])"
| "lazyTitle many acc (c # cs) =
     (if c = 10 then Some (acc, if many then dropWhile (\<lambda>d. d = 10) cs else cs)
      else if isLineTerminator c then Some (acc, c # cs)
      else lazyTitle many (acc @ [c]) cs)"

definition titleGroup :: "bool \<Rightarrow> jsstring \<Rightarrow> (jsstring \<times> jsstring) option" where
  "titleGroup many s =
     (case s of
        [] \<Rightarrow> None
      | c # cs \<Rightarrow> if isLineTerminator c then None else lazyTitle many [c] cs)"

text \<open>
  The greedy \<^verbatim>\<open>\s*\<close> in front of the group: it first takes the whole run of white
  space and gives characters back one at a time while the rest of the pattern fails.
\<close>

fun wsBacktrack :: "bool \<Rightarrow> nat \<Rightarrow> jsstring \<Rightarrow> (jsstring \<times> jsstring) option" where
  "wsBacktrack many 0 s = titleGroup many s"
| "wsBacktrack many (Suc j) s =
     (case titleGroup many (drop (Suc j) s) of
        Some r \<Rightarrow> Some r
      | None \<Rightarrow> wsBacktrack many j s)"

definition afterHash :: "bool \<Rightarrow> jsstring \<Rightarrow> (jsstring \<times> jsstring) option" where
  "afterHash many s = wsBacktrack many (length (takeWhile isWhiteSpace s)) s"

text \<open>
  The pattern from a position where \<^verbatim>\<open>^\<close> holds: \<^verbatim>\<open>[ \t]*\<close> can only stop in front
  of the \<^verbatim>\<open>#\<close>, which is neither a blank nor a tab.
\<close>

definition headingAt :: "bool \<Rightarrow> jsstring \<Rightarrow> (jsstring \<times> jsstring) option" where
  "headingAt many s =
     (case dropWhile (\<lambda>c. c = 32 \<or> c = 9) s of
        [] \<Rightarrow> None
      | c # cs \<Rightarrow> if c = 35 then afterHash many cs else None)"

text \<open>
  The search for the first match, from left to right. \<open>bol\<close> says whether \<^verbatim>\<open>^\<close>
  holds at the current position: at the start of the input and after every line
  terminator. The result is the text in front of the match, the captured group and the
  text after the match.
\<close>

fun headingSearch ::
  "bool \<Rightarrow> bool \<Rightarrow> jsstring \<Rightarrow> (jsstring \<times> jsstring \<times> jsstring) option" where
  "headingSearch many bol [] =
     (case (if bol then headingAt many [] else None) of
        Some (cap, rest) \<Rightarrow> Some ([], cap, rest)
      | None \<Rightarrow> None)"
| "headingSearch many bol (c # cs) =
     (case (if bol then headingAt many (c # cs) else None) of
        Some (cap, rest) \<Rightarrow> Some ([], cap, rest)
      | None \<Rightarrow>
          (case headingSearch many (isLineTerminator c) cs of
             Some (pre, cap, rest) \<Rightarrow> Some (c # pre, cap, rest)
           | None \<Rightarrow> None))"

text \<open>\<^verbatim>\<open>s.replace(/^[ \t]*#\s*(.+?)(?:\n+|$)/m, '')\<close>: the first match is cut out.\<close>

definition removeHeading :: "jsstring \<Rightarrow> jsstring" where
  "removeHeading s =
     (case headingSearch True True s of
        Some (pre, cap, rest) \<Rightarrow> pre @ rest
      | None \<Rightarrow> s)"

text \<open>\<^verbatim>\<open>s.replace(/^\n+/, '')\<close>: without the flag \<^verbatim>\<open>m\<close>, \<^verbatim>\<open>^\<close> is the start of the input.\<close>

definition stripLeadingNewlines :: "jsstring \<Rightarrow> jsstring" where
  "stripLeadingNewlines s = dropWhile (\<lambda>c. c = 10) s"

section \<open>Paths: the functions of \<^verbatim>\<open>node:path\<close> that the program calls\<close>

text \<open>
  The program runs on a POSIX system and imports \<^verbatim>\<open>join\<close>, \<^verbatim>\<open>resolve\<close>, \<^verbatim>\<open>basename\<close>,
  \<^verbatim>\<open>relative\<close> and \<^verbatim>\<open>dirname\<close>. They are library functions; the definitions below
  follow the POSIX variants of the library, whose separator is \<^verbatim>\<open>/\<close> (code unit 47).
\<close>

text \<open>\<^verbatim>\<open>s.slice(a, b)\<close> for indices that are not negative.\<close>

definition slice :: "jsstring \<Rightarrow> nat \<Rightarrow> nat \<Rightarrow> jsstring" where
  "slice s a b = take (b - a) (drop a s)"


text \<open>\<^verbatim>\<open>basename(path)\<close>: the last component, without the slashes after it.\<close>

definition basenameLast :: "jsstring \<Rightarrow> jsstring" where
  "basenameLast path =
     rev (takeWhile (\<lambda>c. c \<noteq> 47) (dropWhile (\<lambda>c. c = 47) (rev path)))"

text \<open>
  \<^verbatim>\<open>basename(path, suffix)\<close> walks the path from its last index down and matches the
  suffix \<open>sfx\<close> on the way. The state holds the variables of the library's loop; the index
  argument of the loop function is one more than the index \<open>i\<close> that is examined, and
  the loop stops early (\<^verbatim>\<open>break\<close>) at the slash in front of the last component.
\<close>

record basenameState =
  startIdx :: nat
  endIdx :: int
  matchedSlash :: bool
  extIdx :: int
  firstNonSlashEnd :: int

fun basenameLoop :: "jsstring \<Rightarrow> jsstring \<Rightarrow> nat \<Rightarrow> basenameState \<Rightarrow> basenameState" where
  "basenameLoop path sfx 0 st = st"
| "basenameLoop path sfx (Suc i) st =
     (if path ! i = 47 then
        (if \<not> matchedSlash st then st\<lparr>startIdx := i + 1\<rparr>
         else basenameLoop path sfx i st)
      else
        (let st1 = (if firstNonSlashEnd st = - 1
                    then st\<lparr>matchedSlash := False, firstNonSlashEnd := int i + 1\<rparr>
                    else st);
             st2 = (if 0 \<le> extIdx st1 then
                      (if path ! i = sfx ! nat (extIdx st1) then
                         (if extIdx st1 - 1 = - 1
                          then st1\<lparr>extIdx := extIdx st1 - 1, endIdx := int i\<rparr>
                          else st1\<lparr>extIdx := extIdx st1 - 1\<rparr>)
                       else st1\<lparr>extIdx := - 1, endIdx := firstNonSlashEnd st1\<rparr>)
                    else st1)
         in basenameLoop path sfx i st2))"

definition basename :: "jsstring \<Rightarrow> jsstring \<Rightarrow> jsstring" where
  "basename path sfx =
     (if sfx \<noteq> [] \<and> length sfx \<le> length path then
        (if sfx = path then []
         else
           (let st = basenameLoop path sfx (length path)
                       \<lparr>startIdx = 0, endIdx = - 1, matchedSlash = True,
                        extIdx = int (length sfx) - 1, firstNonSlashEnd = - 1\<rparr>;
                e = (if int (startIdx st) = endIdx st then firstNonSlashEnd st
                     else if endIdx st = - 1 then int (length path)
                     else endIdx st)
            in slice path (startIdx st) (nat e)))
      else basenameLast path)"

text \<open>
  \<^verbatim>\<open>normalizeString\<close>, on the components between slashes: empty components and
  \<^verbatim>\<open>.\<close> are dropped, \<^verbatim>\<open>..\<close> removes the component before it, and is kept only when
  there is none to remove and the path may climb above its start. \<open>res\<close> is the
  result so far, last component first.
\<close>

fun normalizeSegments :: "bool \<Rightarrow> jsstring list \<Rightarrow> jsstring list \<Rightarrow> jsstring list" where
  "normalizeSegments allowAboveRoot res [] = rev res"
| "normalizeSegments allowAboveRoot res (seg # segs) =
     (if seg = [] \<or> seg = js ''.'' then normalizeSegments allowAboveRoot res segs
      else if seg = js ''..'' then
        (case res of
           lastSeg # below \<Rightarrow>
             if lastSeg \<noteq> js ''..'' then normalizeSegments allowAboveRoot below segs
             else if allowAboveRoot then normalizeSegments allowAboveRoot (seg # res) segs
             else normalizeSegments allowAboveRoot res segs
         | [] \<Rightarrow>
             if allowAboveRoot then normalizeSegments allowAboveRoot [seg] segs
             else normalizeSegments allowAboveRoot [] segs)
      else normalizeSegments allowAboveRoot (seg # res) segs)"

definition normalizeString :: "jsstring \<Rightarrow> bool \<Rightarrow> jsstring" where
  "normalizeString path allowAboveRoot =
     joinWith 47 (normalizeSegments allowAboveRoot [] (splitOn 47 path))"

text \<open>
  \<^verbatim>\<open>resolve(...args)\<close> reads its arguments from the last to the first, and then the
  working directory of the process, until the path is absolute. The working directory
  \<open>cwd\<close> is a parameter of the model.
\<close>

fun resolveLoop :: "jsstring list \<Rightarrow> jsstring \<Rightarrow> bool \<Rightarrow> jsstring \<times> bool" where
  "resolveLoop [] resolvedPath resolvedAbsolute = (resolvedPath, resolvedAbsolute)"
| "resolveLoop (path # paths) resolvedPath resolvedAbsolute =
     (if resolvedAbsolute then (resolvedPath, resolvedAbsolute)
      else if path = [] then resolveLoop paths resolvedPath resolvedAbsolute
      else resolveLoop paths (path @ 47 # resolvedPath) (hd path = 47))"

definition resolve :: "jsstring \<Rightarrow> jsstring list \<Rightarrow> jsstring" where
  "resolve cwd args =
     (case resolveLoop (rev (cwd # args)) [] False of
        (resolvedPath, resolvedAbsolute) \<Rightarrow>
          (let n = normalizeString resolvedPath (\<not> resolvedAbsolute)
           in if resolvedAbsolute then 47 # n
              else if n \<noteq> [] then n else js ''.''))"

definition normalize :: "jsstring \<Rightarrow> jsstring" where
  "normalize path =
     (if path = [] then js ''.''
      else
        (let isAbsolute = (hd path = 47);
             trailingSeparator = (last path = 47);
             n = normalizeString path (\<not> isAbsolute)
         in if n = [] then
              (if isAbsolute then js ''/''
               else if trailingSeparator then js ''./'' else js ''.'')
            else
              (let n' = (if trailingSeparator then n @ [47] else n)
               in if isAbsolute then 47 # n' else n')))"

definition join :: "jsstring list \<Rightarrow> jsstring" where
  "join args =
     (let parts = filter (\<lambda>a. a \<noteq> []) args
      in if parts = [] then js ''.'' else normalize (joinWith 47 parts))"

text \<open>
  \<^verbatim>\<open>relative(from, to)\<close>: both paths are resolved, their common leading components
  are dropped, and the result climbs out of what is left of \<open>from\<close> and descends into
  what is left of \<open>to\<close>.
\<close>

fun dropCommon :: "jsstring list \<Rightarrow> jsstring list \<Rightarrow> jsstring list \<times> jsstring list" where
  "dropCommon (a # as) (b # bs) = (if a = b then dropCommon as bs else (a # as, b # bs))"
| "dropCommon as bs = (as, bs)"

definition pathSegments :: "jsstring \<Rightarrow> jsstring list" where
  "pathSegments p = filter (\<lambda>seg. seg \<noteq> []) (splitOn 47 p)"

definition relative :: "jsstring \<Rightarrow> jsstring \<Rightarrow> jsstring \<Rightarrow> jsstring" where
  "relative cwd from to =
     (if from = to then []
      else
        (let from' = resolve cwd [from]; to' = resolve cwd [to]
         in if from' = to' then []
            else
              (case dropCommon (pathSegments from') (pathSegments to') of
                 (up, down) \<Rightarrow> joinWith 47 (map (\<lambda>_. js ''..'') up @ down))))"

section \<open>parseDocumentContent\<close>

record parsedDocument =
  title :: jsstring
  content :: jsstring

text \<open>
  The first six lines are dropped; \<open>headerMatch\<close> is the match of the heading pattern
  that ends in \<^verbatim>\<open>\n\<close>, of which only the captured group is used.
\<close>

definition parseDocumentContent :: "jsstring \<Rightarrow> jsstring \<Rightarrow> parsedDocument" where
  "parseDocumentContent rawContent fileName =
     (let lines = splitOn 10 rawContent;
          mainContent = joinWith 10 (drop 6 lines);
          headerMatch = headingSearch False True mainContent
      in case headerMatch of
           Some (pre, cap, rest) \<Rightarrow>
             (let title1 = trim cap;
                  mainContent1 = removeHeading mainContent;
                  mainContent2 = stripLeadingNewlines mainContent1
              in \<lparr>title = trim title1, content = trim mainContent2\<rparr>)
         | None \<Rightarrow>
             (let title1 = basename fileName (js ''.md'')
              in \<lparr>title = trim title1, content = trim mainContent\<rparr>))"

section \<open>The cleaning step of updateMarkdownLinks\<close>

text \<open>
  \<open>cleanedContent\<close> is the value of the variable of that name in front of the final
  \<^verbatim>\<open>replace\<close> of \<open>updateMarkdownLinks\<close>.
\<close>

definition cleanedContent :: "jsstring \<Rightarrow> jsstring" where
  "cleanedContent rawContent =
     (let lines = splitOn 10 rawContent;
          cleaned = joinWith 10 (drop 6 lines);
          cleaned1 = removeHeading cleaned
      in stripLeadingNewlines cleaned1)"

section \<open>decodeURIComponent\<close>

text \<open>
  The errors of the model: \<open>URIError\<close> is what \<^verbatim>\<open>decodeURIComponent\<close> throws on a
  malformed escape sequence, \<open>RequestFailed\<close> is what \<open>makeRequest\<close> throws when its
  retries are used up.
\<close>

datatype error = URIError | RequestFailed

definition hexDigit :: "jschar \<Rightarrow> nat option" where
  "hexDigit c =
     (if 48 \<le> c \<and> c \<le> 57 then Some (c - 48)
      else if 65 \<le> c \<and> c \<le> 70 then Some (c - 55)
      else if 97 \<le> c \<and> c \<le> 102 then Some (c - 87)
      else None)"

definition parseHexOctet :: "jschar \<Rightarrow> jschar \<Rightarrow> nat option" where
  "parseHexOctet h1 h2 =
     (case hexDigit h1 of
        None \<Rightarrow> None
      | Some a \<Rightarrow> (case hexDigit h2 of None \<Rightarrow> None | Some b \<Rightarrow> Some (16 * a + b)))"

text \<open>
  The input is read as literal code units and escaped octets \<^verbatim>\<open>%XX\<close>; a \<^verbatim>\<open>%\<close>
  (code unit 37) that is not followed by two hexadecimal digits is an error.
\<close>

datatype uriToken = Lit jschar | Octet nat

fun uriTokens :: "jsstring \<Rightarrow> uriToken list option" where
  "uriTokens [] = Some []"
| "uriTokens (c # cs) =
     (if c = 37 then
        (case cs of
           h1 # h2 # rest \<Rightarrow>
             (case parseHexOctet h1 h2 of
                None \<Rightarrow> None
              | Some b \<Rightarrow> map_option ((#) (Octet b)) (uriTokens rest))
         | _ \<Rightarrow> None)
      else map_option ((#) (Lit c)) (uriTokens cs))"

text \<open>The number of leading 1 bits of an octet (5 stands for five or more).\<close>

definition leadingOnes :: "nat \<Rightarrow> nat" where
  "leadingOnes b =
     (if b < 128 then 0 else if b < 192 then 1 else if b < 224 then 2
      else if b < 240 then 3 else if b < 248 then 4 else 5)"

definition isContinuation :: "nat \<Rightarrow> bool" where
  "isContinuation b \<longleftrightarrow> 128 \<le> b \<and> b < 192"

text \<open>
  The code point of a well-formed UTF-8 sequence of two to four octets: continuation
  octets, no overlong form, no surrogate, nothing above U+10FFFF.
\<close>

definition utf8CodePoint :: "nat list \<Rightarrow> nat option" where
  "utf8CodePoint octets =
     (case octets of
        [b0, b1] \<Rightarrow>
          (let v = (b0 - 192) * 64 + (b1 - 128)
           in if isContinuation b1 \<and> 128 \<le> v then Some v else None)
      | [b0, b1, b2] \<Rightarrow>
          (let v = (b0 - 224) * 4096 + (b1 - 128) * 64 + (b2 - 128)
           in if isContinuation b1 \<and> isContinuation b2 \<and> 2048 \<le> v
                 \<and> (v < 55296 \<or> 57343 < v)
              then Some v else None)
      | [b0, b1, b2, b3] \<Rightarrow>
          (let v = (b0 - 240) * 262144 + (b1 - 128) * 4096 + (b2 - 128) * 64 + (b3 - 128)
           in if isContinuation b1 \<and> isContinuation b2 \<and> isContinuation b3
                 \<and> 65536 \<le> v \<and> v \<le> 1114111
              then Some v else None)
      | _ \<Rightarrow> None)"

definition utf16Encode :: "nat \<Rightarrow> jsstring" where
  "utf16Encode v =
     (if v < 65536 then [v]
      else [55296 + (v - 65536) div 1024, 56320 + (v - 65536) mod 1024])"

fun octetValues :: "uriToken list \<Rightarrow> nat list option" where
  "octetValues [] = Some []"
| "octetValues (Octet b # ts) = map_option ((#) b) (octetValues ts)"
| "octetValues (Lit c # ts) = None"

text \<open>
  An octet below 128 is the character itself; an octet with \<open>n\<close> leading 1 bits opens
  a sequence of \<open>n\<close> escaped octets, which must follow at once and be well-formed.
\<close>

fun utf8Decode :: "uriToken list \<Rightarrow> jsstring option" where
  "utf8Decode [] = Some []"
| "utf8Decode (Lit c # ts) = map_option ((#) c) (utf8Decode ts)"
| "utf8Decode (Octet b # ts) =
     (let n = leadingOnes b
      in if n = 0 then map_option ((#) b) (utf8Decode ts)
         else if n = 1 \<or> 4 < n \<or> length ts < n - 1 then None
         else
           (case octetValues (take (n - 1) ts) of
              None \<Rightarrow> None
            | Some bs \<Rightarrow>
                (case utf8CodePoint (b # bs) of
                   None \<Rightarrow> None
                 | Some v \<Rightarrow> map_option ((@) (utf16Encode v)) (utf8Decode (drop (n - 1) ts)))))"

definition decodeURIComponent :: "jsstring \<Rightarrow> error + jsstring" where
  "decodeURIComponent s =
     (case uriTokens s of
        None \<Rightarrow> Inl URIError
      | Some ts \<Rightarrow> (case utf8Decode ts of None \<Rightarrow> Inl URIError | Some r \<Rightarrow> Inr r))"

section \<open>The registry\<close>

text \<open>
  The three module-level \<^verbatim>\<open>Map\<close> objects. A \<^verbatim>\<open>Map\<close> keeps its keys in the order
  of their first insertion: it is an association list in which \<open>mapSet\<close> replaces the
  value of a key that is present and appends a key that is not.
\<close>

type_synonym jsmap = "(jsstring \<times> jsstring) list"

definition mapGet :: "jsmap \<Rightarrow> jsstring \<Rightarrow> jsstring option" where
  "mapGet m k = map_of m k"

fun mapSet :: "jsmap \<Rightarrow> jsstring \<Rightarrow> jsstring \<Rightarrow> jsmap" where
  "mapSet [] k v = [(k, v)]"
| "mapSet ((k', v') # m) k v = (if k' = k then (k, v) # m else (k', v') # mapSet m k v)"

record registry =
  attachmentUrlMap :: jsmap
  documentUrlMap :: jsmap
  documentIdMap :: jsmap

text \<open>
  A value read from a map is \<^verbatim>\<open>undefined\<close> (\<open>None\<close>) or a string; in a condition and
  on the left of \<^verbatim>\<open>||\<close> it counts as true when it is a string that is not empty.
\<close>

definition truthy :: "jsstring option \<Rightarrow> bool" where
  "truthy v = (case v of None \<Rightarrow> False | Some u \<Rightarrow> u \<noteq> [])"

definition orElse :: "jsstring option \<Rightarrow> jsstring option \<Rightarrow> jsstring option" where
  "orElse a b = (if truthy a then a else b)"

section \<open>The link patterns\<close>

text \<open>
  \<^verbatim>\<open>\[([^\]]+)\]\(([^)]+)\)\<close> of \<open>updateMarkdownLinks\<close> and, with \<open>emptyText\<close>, the part
  \<^verbatim>\<open>\[(?:[^\]]*)\]\(([^)]+)\)\<close> of the pattern of \<open>scanMarkdownLinks\<close>, matched at the
  head of the input. The class \<^verbatim>\<open>[^\]]\<close> cannot match the \<^verbatim>\<open>]\<close> (code unit 93) that
  must follow it, so the text runs to the first \<^verbatim>\<open>]\<close>; in the same way the target
  runs to the first \<^verbatim>\<open>)\<close> (code unit 41). The result is the text, the target and the
  input after the match.
\<close>

definition matchBracketLink ::
  "bool \<Rightarrow> jsstring \<Rightarrow> (jsstring \<times> jsstring \<times> jsstring) option" where
  "matchBracketLink emptyText s =
     (case s of
        [] \<Rightarrow> None
      | c # cs \<Rightarrow>
          if c = 91 then
            (let linkText = takeWhile (\<lambda>d. d \<noteq> 93) cs
             in if linkText = [] \<and> \<not> emptyText then None
                else
                  (case dropWhile (\<lambda>d. d \<noteq> 93) cs of
                     b # p # r \<Rightarrow>
                       if p = 40 then
                         (let path = takeWhile (\<lambda>d. d \<noteq> 41) r
                          in if path = [] then None
                             else
                               (case dropWhile (\<lambda>d. d \<noteq> 41) r of
                                  [] \<Rightarrow> None
                                | e # rest \<Rightarrow> Some (linkText, path, rest)))
                       else None
                   | _ \<Rightarrow> None))
          else None)"

definition matchLink :: "jsstring \<Rightarrow> (jsstring \<times> jsstring \<times> jsstring) option" where
  "matchLink s = matchBracketLink False s"

text \<open>
  The pattern of \<open>scanMarkdownLinks\<close>, \<^verbatim>\<open>(!?\[(?:[^\]]*)\]\(([^)]+)\))\<close>: the optional
  \<^verbatim>\<open>!\<close> (code unit 33) is tried first, and the pattern without it when that fails.
\<close>

definition matchScanLink :: "jsstring \<Rightarrow> (jsstring \<times> jsstring \<times> jsstring) option" where
  "matchScanLink s =
     (case (case s of [] \<Rightarrow> None
            | c # cs \<Rightarrow> if c = 33 then matchBracketLink True cs else None) of
        Some r \<Rightarrow> Some r
      | None \<Rightarrow> matchBracketLink True s)"

lemma matchBracketLink_shorter:
  "matchBracketLink emptyText s = Some (linkText, path, rest) \<Longrightarrow> length rest < length s"
proof -
  assume m: "matchBracketLink emptyText s = Some (linkText, path, rest)"
  then obtain c cs where s: "s = c # cs" by (cases s) (auto simp: matchBracketLink_def)
  from m s obtain b p r where r1: "dropWhile (\<lambda>d. d \<noteq> 93) cs = b # p # r"
    by (auto simp: matchBracketLink_def Let_def split: if_splits list.splits)
  from m s r1 obtain e where r2: "dropWhile (\<lambda>d. d \<noteq> 41) r = e # rest"
    by (auto simp: matchBracketLink_def Let_def split: if_splits list.splits)
  have "length (dropWhile (\<lambda>d. d \<noteq> 41) r) \<le> length r" by (rule length_dropWhile_le)
  moreover have "length (dropWhile (\<lambda>d. d \<noteq> 93) cs) \<le> length cs" by (rule length_dropWhile_le)
  ultimately show ?thesis using s r1 r2 by simp
qed

lemma matchScanLink_shorter:
  "matchScanLink s = Some (linkText, path, rest) \<Longrightarrow> length rest < length s"
  by (cases s)
    (auto simp: matchScanLink_def split: option.splits if_splits
      dest!: matchBracketLink_shorter)

section \<open>scanMarkdownLinks\<close>

text \<open>
  \<^verbatim>\<open>content.matchAll(linkRegex)\<close>: the matches from left to right, each search starting
  where the match before ended. Of a match the loop only reads the second group, the
  target.
\<close>

function matchAllLinks :: "jsstring \<Rightarrow> jsstring list" where
  "matchAllLinks [] = []"
| "matchAllLinks (c # cs) =
     (case matchScanLink (c # cs) of
        Some (linkText, path, rest) \<Rightarrow> path # matchAllLinks rest
      | None \<Rightarrow> matchAllLinks cs)"
  by pat_completeness auto
termination
  by (relation "measure length") (auto dest: matchScanLink_shorter)

record scanResult =
  attachmentLinks :: jsmap
  documentLinks :: jsmap

text \<open>The body of the loop, for one target.\<close>

definition scanStep :: "jsstring \<Rightarrow> scanResult \<Rightarrow> jsstring \<Rightarrow> scanResult" where
  "scanStep sourcePath acc path =
     (if \<not> startsWith path (js ''http://'') \<and> \<not> startsWith path (js ''https://'') then
        (if endsWith path (js ''.md'')
         then acc\<lparr>documentLinks := mapSet (documentLinks acc) path sourcePath\<rparr>
         else acc\<lparr>attachmentLinks := mapSet (attachmentLinks acc) path sourcePath\<rparr>)
      else acc)"

definition scanMarkdownLinks :: "jsstring \<Rightarrow> jsstring \<Rightarrow> scanResult" where
  "scanMarkdownLinks mdContent sourcePath =
     foldl (scanStep sourcePath) \<lparr>attachmentLinks = [], documentLinks = []\<rparr>
       (matchAllLinks mdContent)"

section \<open>updateMarkdownLinks\<close>

text \<open>\<^verbatim>\<open>path.replace(/^\//, '')\<close> and \<^verbatim>\<open>s.replace(/\.md$/, '')\<close>.\<close>

definition stripLeadingSlash :: "jsstring \<Rightarrow> jsstring" where
  "stripLeadingSlash path = (case path of [] \<Rightarrow> [] | c # cs \<Rightarrow> if c = 47 then cs else path)"

definition stripMdSuffix :: "jsstring \<Rightarrow> jsstring" where
  "stripMdSuffix s = (if endsWith s (js ''.md'') then take (length s - 3) s else s)"

text \<open>
  The function passed to \<^verbatim>\<open>replace\<close>: \<open>match\<close> is the matched text, \<open>linkText\<close> and
  \<open>path\<close> are the two groups.
\<close>

definition linkReplacement :: "registry \<Rightarrow> jsstring \<Rightarrow> jsstring \<Rightarrow> jsstring \<Rightarrow> error + jsstring" where
  "linkReplacement reg match linkText path =
     (if startsWith path (js ''http'') then Inr match
      else
        (case decodeURIComponent (stripLeadingSlash path) of
           Inl e \<Rightarrow> Inl e
         | Inr decoded \<Rightarrow>
             (let normalizedPath = stripMdSuffix decoded;
                  docUrl = orElse (mapGet (documentUrlMap reg) normalizedPath)
                             (mapGet (documentUrlMap reg) (normalizedPath @ js ''.md''))
              in case (if truthy docUrl then docUrl else None) of
                   Some url \<Rightarrow> Inr (js ''['' @ linkText @ js ''](''  @ url @ js '')'')
                 | None \<Rightarrow>
                     (let attachmentUrl = mapGet (attachmentUrlMap reg) path
                      in case (if truthy attachmentUrl then attachmentUrl else None) of
                           Some url \<Rightarrow> Inr (js ''['' @ linkText @ js ''](''  @ url @ js '')'')
                         | None \<Rightarrow> Inr match))))"

text \<open>
  \<^verbatim>\<open>cleanedContent.replace(/\[([^\]]+)\]\(([^)]+)\)/g, f)\<close>: every match, from left to
  right, is replaced by what \<open>f\<close> returns for it; the search goes on after the match.
  An exception of \<open>f\<close> ends the call.
\<close>

function rewriteLinks :: "registry \<Rightarrow> jsstring \<Rightarrow> error + jsstring" where
  "rewriteLinks reg [] = Inr []"
| "rewriteLinks reg (c # cs) =
     (case matchLink (c # cs) of
        Some (linkText, path, rest) \<Rightarrow>
          (case linkReplacement reg (take (length (c # cs) - length rest) (c # cs)) linkText path of
             Inl e \<Rightarrow> Inl e
           | Inr replacement \<Rightarrow>
               (case rewriteLinks reg rest of
                  Inl e \<Rightarrow> Inl e
                | Inr out \<Rightarrow> Inr (replacement @ out)))
      | None \<Rightarrow>
          (case rewriteLinks reg cs of
             Inl e \<Rightarrow> Inl e
           | Inr out \<Rightarrow> Inr (c # out)))"
  by pat_completeness auto
termination
  by (relation "measure (\<lambda>(reg, s). length s)")
    (auto simp: matchLink_def dest: matchBracketLink_shorter)

definition updateMarkdownLinks :: "registry \<Rightarrow> jsstring \<Rightarrow> error + jsstring" where
  "updateMarkdownLinks reg rawContent = rewriteLinks reg (cleanedContent rawContent)"

section \<open>The positions that the two searches visit\<close>

text \<open>
  Both \<^verbatim>\<open>matchAll\<close> and \<^verbatim>\<open>replace\<close> with a global pattern search from left to right: at
  a position where the pattern matches the search goes on after the match, elsewhere it
  goes on one code unit further. \<open>scanArrivesAt s r\<close> holds when the search of
  \<open>matchAllLinks\<close> in \<open>s\<close> tries the pattern at the suffix \<open>r\<close> of \<open>s\<close>, and
  \<open>rewriteArrivesAt s r\<close> when the search of \<open>rewriteLinks\<close> does. These are the two loops
  above with the results left out.
\<close>

function scanArrivesAt :: "jsstring \<Rightarrow> jsstring \<Rightarrow> bool" where
  "scanArrivesAt [] r = (r = [])"
| "scanArrivesAt (c # cs) r =
     (c # cs = r \<or>
      (case matchScanLink (c # cs) of
         Some (linkText, path, rest) \<Rightarrow> scanArrivesAt rest r
       | None \<Rightarrow> scanArrivesAt cs r))"
  by pat_completeness auto
termination
  by (relation "measure (\<lambda>(s, r). length s)") (auto dest: matchScanLink_shorter)

function rewriteArrivesAt :: "jsstring \<Rightarrow> jsstring \<Rightarrow> bool" where
  "rewriteArrivesAt [] r = (r = [])"
| "rewriteArrivesAt (c # cs) r =
     (c # cs = r \<or>
      (case matchLink (c # cs) of
         Some (linkText, path, rest) \<Rightarrow> rewriteArrivesAt rest r
       | None \<Rightarrow> rewriteArrivesAt cs r))"
  by pat_completeness auto
termination
  by (relation "measure (\<lambda>(s, r). length s)")
    (auto simp: matchLink_def dest: matchBracketLink_shorter)

section \<open>isMediaFolder\<close>

text \<open>
  An entry of a directory listing (\<^verbatim>\<open>readdir\<close> with \<^verbatim>\<open>withFileTypes\<close>): its name and what it
  is. \<^verbatim>\<open>isFile()\<close> and \<^verbatim>\<open>isDirectory()\<close> are both false for an entry of another kind.
\<close>

datatype entryKind = File | Directory | Other

record dirent =
  name :: jsstring
  kind :: entryKind

definition isFile :: "dirent \<Rightarrow> bool" where
  "isFile entry \<longleftrightarrow> kind entry = File"

definition isDirectory :: "dirent \<Rightarrow> bool" where
  "isDirectory entry \<longleftrightarrow> kind entry = Directory"

text \<open>
  \<^verbatim>\<open>s.toLowerCase()\<close>, on the code units \<^verbatim>\<open>A\<close> to \<^verbatim>\<open>Z\<close>. The library also maps letters
  outside ASCII by the Unicode tables; none of them is mapped to a text that ends in a
  code unit of an extension below or in \<^verbatim>\<open>.\<close>, so the comparison with the extensions is
  not affected, and these code units are left as they are.
\<close>

definition toLowerCase :: "jsstring \<Rightarrow> jsstring" where
  "toLowerCase s = map (\<lambda>c. if 65 \<le> c \<and> c \<le> 90 then c + 32 else c) s"

text \<open>
  \<^verbatim>\<open>s.match(/\.[^.]+$/)?.[0]\<close>: the search tries the pattern at every position from the
  left; at a \<^verbatim>\<open>.\<close> it succeeds when what follows is not empty and holds no \<^verbatim>\<open>.\<close> up to
  the end of the string.
\<close>

fun extensionMatch :: "jsstring \<Rightarrow> jsstring option" where
  "extensionMatch [] = None"
| "extensionMatch (c # cs) =
     (if c = 46 \<and> cs \<noteq> [] \<and> 46 \<notin> set cs then Some (c # cs) else extensionMatch cs)"

definition mediaExtensions :: "jsstring list" where
  "mediaExtensions = [js ''.jpg'', js ''.jpeg'', js ''.png'', js ''.gif'', js ''.pdf'']"

text \<open>The callback of \<^verbatim>\<open>files.every\<close>.\<close>

definition isMediaFile :: "dirent \<Rightarrow> bool" where
  "isMediaFile file =
     (case extensionMatch (toLowerCase (name file)) of
        None \<Rightarrow> False
      | Some ext \<Rightarrow> ext \<in> set mediaExtensions)"

text \<open>
  \<open>isMediaFolder dirPath entries\<close>, where \<open>entries\<close> is the listing that \<^verbatim>\<open>readdir(dirPath)\<close>
  returns; it is read only when the name does not start with \<^verbatim>\<open>media_\<close>.
\<close>

definition isMediaFolder :: "jsstring \<Rightarrow> dirent list \<Rightarrow> bool" where
  "isMediaFolder dirPath entries =
     (if startsWith (basename dirPath []) (js ''media_'') then True
      else
        (let files = filter isFile entries
         in if length files = 0 then False
            else list_all isMediaFile files))"

section \<open>resolveAttachmentPath\<close>


section \<open>createDocumentStructure\<close>

text \<open>
  The directory tree that the program reads: a file with its name and content, a
  directory with its name and entries, or an entry of another kind. \<open>direntOf\<close> is the
  entry that \<^verbatim>\<open>readdir\<close> lists for a node. Reading the tree does not fail in the model;
  a request to the remote side can.
\<close>

datatype fsNode =
  FileNode jsstring jsstring
| DirNode jsstring "fsNode list"
| OtherNode jsstring

fun direntOf :: "fsNode \<Rightarrow> dirent" where
  "direntOf (FileNode entryName rawContent) = \<lparr>name = entryName, kind = File\<rparr>"
| "direntOf (DirNode entryName children) = \<lparr>name = entryName, kind = Directory\<rparr>"
| "direntOf (OtherNode entryName) = \<lparr>name = entryName, kind = Other\<rparr>"

text \<open>
  The payload of \<^verbatim>\<open>documents.create\<close>: title, text, collection and, when there is one,
  the parent document. The remote side is a function from the requests served so far
  and the request to the id of the new document; it gives \<open>None\<close> when the request
  fails, and \<^verbatim>\<open>makeRequest\<close> throws.
\<close>

datatype docRequest = DocRequest jsstring jsstring jsstring "jsstring option"

type_synonym remote = "docRequest list \<Rightarrow> docRequest \<Rightarrow> jsstring option"

record buildState = registry +
  requests :: "docRequest list"

definition SLITE_BACKUP_PATH :: jsstring where
  "SLITE_BACKUP_PATH = js ''./slite-backup/channels''"

definition createDocument ::
  "remote \<Rightarrow> jsstring \<Rightarrow> jsstring \<Rightarrow> jsstring \<Rightarrow> jsstring option \<Rightarrow> docRequest list
     \<Rightarrow> error + (jsstring \<times> docRequest list)" where
  "createDocument remote docTitle docText collectionId parentDocumentId served =
     (let data = DocRequest docTitle docText collectionId
                   (if truthy parentDocumentId then parentDocumentId else None)
      in case remote served data of
           None \<Rightarrow> Inl RequestFailed
         | Some docId \<Rightarrow> Inr (docId, served @ [data]))"

text \<open>The two \<^verbatim>\<open>set\<close> calls that follow the creation of a document.\<close>

definition registerDocument :: "jsstring \<Rightarrow> jsstring \<Rightarrow> docRequest list \<Rightarrow> buildState \<Rightarrow> buildState" where
  "registerDocument relativePath docId served st =
     st\<lparr>documentIdMap := mapSet (documentIdMap st) relativePath docId,
        documentUrlMap := mapSet (documentUrlMap st) relativePath (js ''/doc/'' @ docId),
        requests := served\<rparr>"

text \<open>The first loop of \<open>createDocumentStructure\<close>, over the markdown files of the listing.\<close>

fun createFileDocuments ::
  "remote \<Rightarrow> jsstring \<Rightarrow> jsstring \<Rightarrow> jsstring \<Rightarrow> jsstring option \<Rightarrow> fsNode list
     \<Rightarrow> buildState \<Rightarrow> error + buildState" where
  "createFileDocuments remote cwd dirPath collectionId parentDocumentId [] st = Inr st"
| "createFileDocuments remote cwd dirPath collectionId parentDocumentId (FileNode entryName rawContent # rest) st =
     (if endsWith entryName (js ''.md'') then
        (let filePath = join [dirPath, entryName];
             parsed = parseDocumentContent rawContent entryName
         in case createDocument remote (title parsed) (content parsed) collectionId
                   parentDocumentId (requests st) of
              Inl e \<Rightarrow> Inl e
            | Inr (docId, served) \<Rightarrow>
                createFileDocuments remote cwd dirPath collectionId parentDocumentId rest
                  (registerDocument (relative cwd SLITE_BACKUP_PATH filePath) docId served st))
      else createFileDocuments remote cwd dirPath collectionId parentDocumentId rest st)"
| "createFileDocuments remote cwd dirPath collectionId parentDocumentId (DirNode entryName children # rest) st =
     createFileDocuments remote cwd dirPath collectionId parentDocumentId rest st"
| "createFileDocuments remote cwd dirPath collectionId parentDocumentId (OtherNode entryName # rest) st =
     createFileDocuments remote cwd dirPath collectionId parentDocumentId rest st"

text \<open>
  \<open>createDocumentStructure\<close> on the listing \<open>entries\<close> of \<open>dirPath\<close>, and its second loop,
  over the directories of the listing.
\<close>

fun createDocumentStructure ::
  "remote \<Rightarrow> jsstring \<Rightarrow> jsstring \<Rightarrow> jsstring \<Rightarrow> jsstring option \<Rightarrow> fsNode list
     \<Rightarrow> buildState \<Rightarrow> error + buildState"
and createDirectoryDocuments ::
  "remote \<Rightarrow> jsstring \<Rightarrow> jsstring \<Rightarrow> jsstring \<Rightarrow> jsstring option \<Rightarrow> fsNode list
     \<Rightarrow> buildState \<Rightarrow> error + buildState" where
  "createDocumentStructure remote cwd dirPath collectionId parentDocumentId entries st =
     (case createFileDocuments remote cwd dirPath collectionId parentDocumentId entries st of
        Inl e \<Rightarrow> Inl e
      | Inr st1 \<Rightarrow>
          createDirectoryDocuments remote cwd dirPath collectionId parentDocumentId entries st1)"
| "createDirectoryDocuments remote cwd dirPath collectionId parentDocumentId [] st = Inr st"
| "createDirectoryDocuments remote cwd dirPath collectionId parentDocumentId (DirNode entryName children # rest) st =
     (let fullDirPath = join [dirPath, entryName]
      in if isMediaFolder fullDirPath (map direntOf children)
         then createDirectoryDocuments remote cwd dirPath collectionId parentDocumentId rest st
         else
           (case createDocument remote entryName [] collectionId parentDocumentId (requests st) of
              Inl e \<Rightarrow> Inl e
            | Inr (dirDocId, served) \<Rightarrow>
                (case createDocumentStructure remote cwd fullDirPath collectionId (Some dirDocId)
                        children
                        (registerDocument (relative cwd SLITE_BACKUP_PATH fullDirPath) dirDocId served st) of
                   Inl e \<Rightarrow> Inl e
                 | Inr st1 \<Rightarrow>
                     createDirectoryDocuments remote cwd dirPath collectionId parentDocumentId rest st1)))"
| "createDirectoryDocuments remote cwd dirPath collectionId parentDocumentId (FileNode entryName rawContent # rest) st =
     createDirectoryDocuments remote cwd dirPath collectionId parentDocumentId rest st"
| "createDirectoryDocuments remote cwd dirPath collectionId parentDocumentId (OtherNode entryName # rest) st =
     createDirectoryDocuments remote cwd dirPath collectionId parentDocumentId rest st"

text \<open>
  The tree without its media folders: at every depth, a directory that \<open>isMediaFolder\<close>
  classifies as a media folder is left out, with everything in it.
\<close>

fun withoutMediaFolders :: "jsstring \<Rightarrow> fsNode list \<Rightarrow> fsNode list" where
  "withoutMediaFolders dirPath [] = []"
| "withoutMediaFolders dirPath (DirNode entryName children # rest) =
     (let fullDirPath = join [dirPath, entryName]
      in if isMediaFolder fullDirPath (map direntOf children)
         then withoutMediaFolders dirPath rest
         else DirNode entryName (withoutMediaFolders fullDirPath children)
                # withoutMediaFolders dirPath rest)"
| "withoutMediaFolders dirPath (FileNode entryName rawContent # rest) =
     FileNode entryName rawContent # withoutMediaFolders dirPath rest"
| "withoutMediaFolders dirPath (OtherNode entryName # rest) =
     OtherNode entryName # withoutMediaFolders dirPath rest"

section \<open>The two heading patterns match at the same places\<close>

lemma lazyTitle_Some: "\<exists>cap rest. lazyTitle many acc s = Some (cap, rest)"
  by (induction s arbitrary: acc) auto

lemma lazyTitle_not_None: "lazyTitle many acc s \<noteq> None"
  using lazyTitle_Some[of many acc s] by auto

lemma titleGroup_None: "titleGroup many s = None \<longleftrightarrow> titleGroup many' s = None"
  by (auto simp: titleGroup_def lazyTitle_not_None split: list.splits)

lemma wsBacktrack_None: "wsBacktrack many j s = None \<longleftrightarrow> wsBacktrack many' j s = None"
proof (induction j)
  case 0
  show ?case using titleGroup_None[of many s many'] by simp
next
  case (Suc j)
  show ?case using Suc titleGroup_None[of many "drop (Suc j) s" many']
    by (auto split: option.splits)
qed

lemma headingAt_None: "headingAt many s = None \<longleftrightarrow> headingAt many' s = None"
proof (cases "dropWhile (\<lambda>c. c = 32 \<or> c = 9) s")
  case Nil
  then show ?thesis unfolding headingAt_def by (simp del: dropWhile_eq_Nil_conv)
next
  case (Cons c cs)
  then show ?thesis
    using wsBacktrack_None[of many "length (takeWhile isWhiteSpace cs)" cs many']
    unfolding headingAt_def afterHash_def by simp
qed

lemma headingSearch_None:
  "headingSearch many bol s = None \<longleftrightarrow> headingSearch many' bol s = None"
proof (induction s arbitrary: bol)
  case Nil
  show ?case using headingAt_None[of many "[]" many'] by (auto split: option.splits)
next
  case (Cons c cs)
  show ?case using headingAt_None[of many "c # cs" many'] Cons[of "isLineTerminator c"]
    by (auto split: option.splits)
qed

lemma trim_stripLeadingNewlines: "trim (stripLeadingNewlines s) = trim s"
proof -
  have "dropWhile isWhiteSpace (dropWhile (\<lambda>c. c = 10) s) = dropWhile isWhiteSpace s"
    by (induction s) (auto simp: isWhiteSpace_def isLineTerminator_def)
  then show ?thesis by (simp add: trim_def stripLeadingNewlines_def)
qed

text \<open>
  What relates the two functions: the body that \<open>parseDocumentContent\<close> returns is the
  cleaned content of \<open>updateMarkdownLinks\<close> after \<^verbatim>\<open>trim()\<close>, which only the parser
  calls.
\<close>

lemma content_eq_trim_cleanedContent:
  "content (parseDocumentContent rawContent fileName) = trim (cleanedContent rawContent)"
proof (cases "headingSearch False True (joinWith 10 (drop 6 (splitOn 10 rawContent)))")
  case None
  then have "headingSearch True True (joinWith 10 (drop 6 (splitOn 10 rawContent))) = None"
    using headingSearch_None by blast
  with None show ?thesis
    by (simp add: parseDocumentContent_def cleanedContent_def removeHeading_def
        trim_stripLeadingNewlines Let_def)
next
  case (Some a)
  then show ?thesis
    by (cases a)
      (simp add: parseDocumentContent_def cleanedContent_def trim_stripLeadingNewlines Let_def)
qed

section \<open>Claims about parseDocumentContent\<close>

text \<open>
  Claim C2 says that the cleaned content of \<open>updateMarkdownLinks\<close> is exactly the body
  that \<open>parseDocumentContent\<close> returns for the same raw content. On a file of six
  metadata lines, a heading and a body line that ends in a newline, the parser returns
  the body \<^verbatim>\<open>body\<close> and the cleaning step of \<open>updateMarkdownLinks\<close> keeps the newline
  at the end: the two differ, since only the parser trims.
\<close>

theorem cleanedContent_differs_from_parsed_body:
  "content (parseDocumentContent
      (js ''m1\<newline>m2\<newline>m3\<newline>m4\<newline>m5\<newline>m6\<newline># T\<newline>body\<newline>'') (js ''doc.md'')) = js ''body''
   \<and> cleanedContent (js ''m1\<newline>m2\<newline>m3\<newline>m4\<newline>m5\<newline>m6\<newline># T\<newline>body\<newline>'') = js ''body\<newline>''"
  by (simp add: js_def parseDocumentContent_def cleanedContent_def removeHeading_def
      stripLeadingNewlines_def trim_def headingAt_def afterHash_def titleGroup_def
      isWhiteSpace_def isLineTerminator_def)

text \<open>
  Claim C4 says that the title is the trimmed text of the first heading line and that
  this line is what is removed from the body. When the heading line holds a \<^verbatim>\<open>#\<close> and
  nothing else, the white space that the pattern allows after the \<^verbatim>\<open>#\<close> runs over the
  end of the line: the text of the next line becomes the title and is removed from the
  body together with the heading line.
\<close>

theorem parseDocumentContent_bare_hash_takes_next_line:
  "parseDocumentContent
      (js ''m1\<newline>m2\<newline>m3\<newline>m4\<newline>m5\<newline>m6\<newline>#\<newline>Body text'') (js ''doc.md'')
   = \<lparr>title = js ''Body text'', content = []\<rparr>"
  by (simp add: js_def parseDocumentContent_def removeHeading_def
      stripLeadingNewlines_def trim_def headingAt_def afterHash_def titleGroup_def
      isWhiteSpace_def isLineTerminator_def)

text \<open>The example of claim C4, on which the code does what the claim says.\<close>

lemma parseDocumentContent_example:
  "parseDocumentContent
      (js ''m1\<newline>m2\<newline>m3\<newline>m4\<newline>m5\<newline>m6\<newline>\<newline># My Title\<newline>Body text'') (js ''doc.md'')
   = \<lparr>title = js ''My Title'', content = js ''Body text''\<rparr>"
  by (simp add: js_def parseDocumentContent_def removeHeading_def
      stripLeadingNewlines_def trim_def headingAt_def afterHash_def titleGroup_def
      isWhiteSpace_def isLineTerminator_def)

section \<open>Facts about the link patterns and the replacement loop\<close>

text \<open>The text of a link, \<^verbatim>\<open>[linkText](target)\<close>.\<close>

definition mdLink :: "jsstring \<Rightarrow> jsstring \<Rightarrow> jsstring" where
  "mdLink linkText target = 91 # linkText @ 93 # 40 # target @ [41]"

lemma mdLink_js: "mdLink t p = js ''['' @ t @ js ''](''  @ p @ js '')''"
  by (simp add: mdLink_def js_def)

lemma takeWhile_until: "x \<notin> set t \<Longrightarrow> takeWhile (\<lambda>d. d \<noteq> x) (t @ x # r) = t"
  by (induction t) auto

lemma dropWhile_until: "x \<notin> set t \<Longrightarrow> dropWhile (\<lambda>d. d \<noteq> x) (t @ x # r) = x # r"
  by (induction t) auto

lemma matchBracketLink_intro:
  assumes "93 \<notin> set linkText" "emptyText \<or> linkText \<noteq> []" "target \<noteq> []" "41 \<notin> set target"
  shows "matchBracketLink emptyText (mdLink linkText target @ rest) = Some (linkText, target, rest)"
proof -
  have a: "takeWhile (\<lambda>d. d \<noteq> 93) (linkText @ 93 # 40 # target @ 41 # rest) = linkText"
    using assms(1) by (rule takeWhile_until)
  have b: "dropWhile (\<lambda>d. d \<noteq> 93) (linkText @ 93 # 40 # target @ 41 # rest) = 93 # 40 # target @ 41 # rest"
    using assms(1) by (rule dropWhile_until)
  have c: "takeWhile (\<lambda>d. d \<noteq> 41) (target @ 41 # rest) = target"
    using assms(4) by (rule takeWhile_until)
  have d: "dropWhile (\<lambda>d. d \<noteq> 41) (target @ 41 # rest) = 41 # rest"
    using assms(4) by (rule dropWhile_until)
  show ?thesis using assms(2,3) by (auto simp: matchBracketLink_def mdLink_def a b c d)
qed

lemma matchBracketLink_elim:
  assumes "matchBracketLink emptyText s = Some (linkText, target, rest)"
  shows "s = mdLink linkText target @ rest \<and> 93 \<notin> set linkText \<and> (emptyText \<or> linkText \<noteq> [])
         \<and> target \<noteq> [] \<and> 41 \<notin> set target"
proof -
  from assms obtain cs where s: "s = 91 # cs"
    by (cases s) (auto simp: matchBracketLink_def split: if_splits)
  from assms s obtain b r where r1: "dropWhile (\<lambda>d. d \<noteq> 93) cs = b # 40 # r"
    and t: "linkText = takeWhile (\<lambda>d. d \<noteq> 93) cs" and e: "emptyText \<or> linkText \<noteq> []"
    by (auto simp: matchBracketLink_def Let_def split: if_splits list.splits)
  from assms s r1 obtain e' where r2: "dropWhile (\<lambda>d. d \<noteq> 41) r = e' # rest"
    and p: "target = takeWhile (\<lambda>d. d \<noteq> 41) r" and pne: "target \<noteq> []"
    by (auto simp: matchBracketLink_def Let_def split: if_splits list.splits)
  have b93: "b = 93" using r1 hd_dropWhile[of "\<lambda>d. d \<noteq> 93" cs] by auto
  have e41: "e' = 41" using r2 hd_dropWhile[of "\<lambda>d. d \<noteq> 41" r] by auto
  have cs: "cs = linkText @ 93 # 40 # r"
    using takeWhile_dropWhile_id[of "\<lambda>d. d \<noteq> 93" cs] r1 t b93 by simp
  have r: "r = target @ 41 # rest"
    using takeWhile_dropWhile_id[of "\<lambda>d. d \<noteq> 41" r] r2 p e41 by simp
  have n1: "93 \<notin> set linkText" unfolding t by (auto dest: set_takeWhileD)
  have n2: "41 \<notin> set target" unfolding p by (auto dest: set_takeWhileD)
  show ?thesis using s cs r n1 n2 e pne by (simp add: mdLink_def)
qed

lemma matchLink_intro:
  "93 \<notin> set linkText \<Longrightarrow> linkText \<noteq> [] \<Longrightarrow> target \<noteq> [] \<Longrightarrow> 41 \<notin> set target \<Longrightarrow>
   matchLink (mdLink linkText target @ rest) = Some (linkText, target, rest)"
  by (simp add: matchLink_def matchBracketLink_intro)

lemma matchLink_elim:
  "matchLink s = Some (linkText, target, rest) \<Longrightarrow>
   s = mdLink linkText target @ rest \<and> 93 \<notin> set linkText \<and> linkText \<noteq> []
     \<and> target \<noteq> [] \<and> 41 \<notin> set target"
  using matchBracketLink_elim[of False s linkText target rest] by (simp add: matchLink_def)

lemma matchLink_not_bracket: "c \<noteq> 91 \<Longrightarrow> matchLink (c # cs) = None"
  by (simp add: matchLink_def matchBracketLink_def)

lemma rewriteLinks_match:
  assumes "matchLink s = Some (linkText, target, rest)"
  shows "rewriteLinks reg s =
     (case linkReplacement reg (mdLink linkText target) linkText target of
        Inl e \<Rightarrow> Inl e
      | Inr replacement \<Rightarrow>
          (case rewriteLinks reg rest of Inl e \<Rightarrow> Inl e | Inr out \<Rightarrow> Inr (replacement @ out)))"
proof -
  from matchLink_elim[OF assms] have s: "s = mdLink linkText target @ rest" by simp
  then obtain cs where c: "s = 91 # cs" by (simp add: mdLink_def)
  have "take (length s - length rest) s = mdLink linkText target" using s by simp
  then show ?thesis using assms c by simp
qed

lemma rewriteLinks_nomatch:
  "matchLink (c # cs) = None \<Longrightarrow>
   rewriteLinks reg (c # cs) = (case rewriteLinks reg cs of Inl e \<Rightarrow> Inl e | Inr out \<Rightarrow> Inr (c # out))"
  by simp

lemma rewriteLinks_prefix:
  "91 \<notin> set pre \<Longrightarrow>
   rewriteLinks reg (pre @ s) = (case rewriteLinks reg s of Inl e \<Rightarrow> Inl e | Inr out \<Rightarrow> Inr (pre @ out))"
proof (induction pre)
  case Nil
  show ?case by (simp split: sum.splits)
next
  case (Cons c pre)
  then have "matchLink (c # pre @ s) = None" by (simp add: matchLink_not_bracket)
  then show ?case using Cons by (simp split: sum.splits)
qed

section \<open>The target that a link gets\<close>

text \<open>
  The target that claim C1 prescribes for a link, in the words of the claim: a target
  that starts with \<^verbatim>\<open>http\<close> stays; otherwise the target is normalized (one leading
  \<^verbatim>\<open>/\<close> stripped, percent-decoded, a trailing \<^verbatim>\<open>.md\<close> stripped) and replaced by the
  entry of \<open>documentUrlMap\<close> for the normalized target, else by the entry for the
  normalized target with \<^verbatim>\<open>.md\<close> appended, else by the entry of \<open>attachmentUrlMap\<close>
  for the target as written, and it stays when there is no entry. Percent-decoding can
  fail; then there is no normalized target, and the error is the result.
\<close>

definition specLinkTarget :: "registry \<Rightarrow> jsstring \<Rightarrow> error + jsstring" where
  "specLinkTarget reg target =
     (if startsWith target (js ''http'') then Inr target
      else
        (case decodeURIComponent (stripLeadingSlash target) of
           Inl e \<Rightarrow> Inl e
         | Inr decoded \<Rightarrow>
             Inr (case mapGet (documentUrlMap reg) (stripMdSuffix decoded) of
                    Some url \<Rightarrow> url
                  | None \<Rightarrow>
                      (case mapGet (documentUrlMap reg) (stripMdSuffix decoded @ js ''.md'') of
                         Some url \<Rightarrow> url
                       | None \<Rightarrow>
                           (case mapGet (attachmentUrlMap reg) target of
                              Some url \<Rightarrow> url
                            | None \<Rightarrow> target)))))"

text \<open>The registry of the example of claim C1.\<close>

definition exampleRegistry :: registry where
  "exampleRegistry =
     \<lparr>attachmentUrlMap = [(js ''img.png'', js ''https://files/ID2'')],
      documentUrlMap = [(js ''sub/doc'', js ''/doc/ID1'')],
      documentIdMap = []\<rparr>"

lemma mapGet_nonempty: "[] \<notin> snd ` set m \<Longrightarrow> mapGet m k = Some u \<Longrightarrow> u \<noteq> []"
  unfolding mapGet_def by (metis map_of_SomeD snd_conv image_eqI)

lemma truthy_mapGet: "[] \<notin> snd ` set m \<Longrightarrow> truthy (mapGet m k) \<longleftrightarrow> mapGet m k \<noteq> None"
  using mapGet_nonempty[of m k] by (cases "mapGet m k") (auto simp: truthy_def)

lemma linkReplacement_spec:
  assumes "[] \<notin> snd ` set (documentUrlMap reg)" "[] \<notin> snd ` set (attachmentUrlMap reg)"
  shows "linkReplacement reg (mdLink linkText target) linkText target =
     (case specLinkTarget reg target of Inl e \<Rightarrow> Inl e | Inr u \<Rightarrow> Inr (mdLink linkText u))"
  using truthy_mapGet[OF assms(1)] truthy_mapGet[OF assms(2)]
  by (auto simp: linkReplacement_def specLinkTarget_def orElse_def Let_def mdLink_js
      split: sum.splits option.splits)

section \<open>When the pattern of updateMarkdownLinks matches\<close>

text \<open>
  Whether the pattern of \<open>updateMarkdownLinks\<close> matches at a \<^verbatim>\<open>[\<close> depends on the text after
  it through five conditions, one for each place the match can have arrived at:
  \<open>okLink\<close> right after the \<^verbatim>\<open>[\<close>, \<open>okAfterText\<close> inside the link text, \<open>okOpen\<close> after
  the \<^verbatim>\<open>]\<close>, \<open>okPath\<close> after the \<^verbatim>\<open>(\<close>, and \<open>hasClose\<close> inside the target.
\<close>

definition hasClose :: "jsstring \<Rightarrow> bool" where "hasClose y \<longleftrightarrow> 41 \<in> set y"
definition okPath :: "jsstring \<Rightarrow> bool" where
  "okPath y \<longleftrightarrow> takeWhile (\<lambda>d. d \<noteq> 41) y \<noteq> [] \<and> dropWhile (\<lambda>d. d \<noteq> 41) y \<noteq> []"
definition okOpen :: "jsstring \<Rightarrow> bool" where
  "okOpen x \<longleftrightarrow> (case x of [] \<Rightarrow> False | p # r \<Rightarrow> p = 40 \<and> okPath r)"
definition okAfterText :: "jsstring \<Rightarrow> bool" where
  "okAfterText x \<longleftrightarrow> (case dropWhile (\<lambda>d. d \<noteq> 93) x of [] \<Rightarrow> False | b # r \<Rightarrow> okOpen r)"
definition okLink :: "jsstring \<Rightarrow> bool" where
  "okLink x \<longleftrightarrow> takeWhile (\<lambda>d. d \<noteq> 93) x \<noteq> [] \<and> okAfterText x"

lemma matchLink_okLink: "matchLink (91 # x) \<noteq> None \<longleftrightarrow> okLink x"
  by (simp add: matchLink_def matchBracketLink_def okLink_def okAfterText_def okOpen_def okPath_def Let_def
      split: list.splits del: dropWhile_eq_Nil_conv)

lemma hasClose_Cons: "hasClose (c # x) \<longleftrightarrow> c = 41 \<or> hasClose x" by (auto simp: hasClose_def)
lemma dropWhile_ne: "dropWhile (\<lambda>d. d \<noteq> a) x \<noteq> [] \<longleftrightarrow> a \<in> set x"
  by (induction x) auto
lemma okPath_Cons: "okPath (c # x) \<longleftrightarrow> c \<noteq> 41 \<and> hasClose x"
  by (auto simp: okPath_def hasClose_def dropWhile_ne)
lemma okPath_Nil: "\<not> okPath []" by (simp add: okPath_def)
lemma hasClose_Nil: "\<not> hasClose []" by (simp add: hasClose_def)
lemma okOpen_Cons: "okOpen (c # x) \<longleftrightarrow> c = 40 \<and> okPath x" by (simp add: okOpen_def)
lemma okOpen_Nil: "\<not> okOpen []" by (simp add: okOpen_def)
lemma okAfterText_Cons: "okAfterText (c # x) \<longleftrightarrow> (if c = 93 then okOpen x else okAfterText x)"
  by (simp add: okAfterText_def)
lemma okAfterText_Nil: "\<not> okAfterText []" by (simp add: okAfterText_def)
lemma okLink_Cons: "okLink (c # x) \<longleftrightarrow> c \<noteq> 93 \<and> okAfterText x"
  by (auto simp: okLink_def okAfterText_def)
lemma okLink_Nil: "\<not> okLink []" by (simp add: okLink_def)

lemma okAfterText_append: "93 \<notin> set t \<Longrightarrow> okAfterText (t @ x) = okAfterText x"
  by (induction t) (auto simp: okAfterText_Cons)

lemma hasClose_append: "hasClose (a @ b) \<longleftrightarrow> hasClose a \<or> hasClose b" by (auto simp: hasClose_def)

lemma link_facts:
  assumes "93 \<notin> set t" "t \<noteq> []" "u \<noteq> []" "41 \<notin> set u"
  shows "hasClose (mdLink t u @ r)" "okPath (mdLink t u @ r)" "\<not> okOpen (mdLink t u @ r)"
    "okAfterText (mdLink t u @ r)" "okLink (mdLink t u @ r)"
proof -
  show c: "hasClose (mdLink t u @ r)" by (simp add: mdLink_def hasClose_def)
  have c': "hasClose (t @ 93 # 40 # u @ 41 # r)" by (simp add: hasClose_def)
  show "okPath (mdLink t u @ r)" using c' by (simp add: mdLink_def okPath_Cons)
  show "\<not> okOpen (mdLink t u @ r)" by (simp add: mdLink_def okOpen_Cons)
  have p: "okPath (u @ 41 # r)" using assms(3,4) by (cases u) (auto simp: okPath_Cons hasClose_def)
  have a: "okAfterText (t @ 93 # 40 # u @ 41 # r)"
    using assms(1) p by (simp add: okAfterText_append okAfterText_Cons okOpen_Cons)
  show "okAfterText (mdLink t u @ r)" using a by (simp add: mdLink_def okAfterText_Cons)
  show "okLink (mdLink t u @ r)" using a assms(1,2) by (cases t) (auto simp: mdLink_def okLink_Cons okAfterText_Cons)
qed

text \<open>
  The URLs that a replacement can put into the content: the values of the two maps
  that are not empty. What replaces a match is the match itself or a link with the
  same text and one of these URLs as its target.
\<close>
definition urlsOf :: "registry \<Rightarrow> jsstring set" where
  "urlsOf reg = {u. u \<noteq> [] \<and> (u \<in> snd ` set (documentUrlMap reg) \<or> u \<in> snd ` set (attachmentUrlMap reg))}"

lemma mapGet_in: "mapGet m k = Some u \<Longrightarrow> u \<in> snd ` set m"
  unfolding mapGet_def by (metis map_of_SomeD snd_conv image_eqI)

lemma linkReplacement_cases:
  assumes "linkReplacement reg (mdLink t p) t p = Inr r" and "r \<noteq> mdLink t p"
  shows "\<exists>u. r = mdLink t u \<and> u \<in> urlsOf reg"
  using assms
  by (auto simp: linkReplacement_def orElse_def Let_def mdLink_js[symmetric] urlsOf_def truthy_def
      split: if_splits sum.splits option.splits dest: mapGet_in)

lemma rewriteLinks_Some_cases:
  assumes "rewriteLinks reg s = Inr out" and "matchLink s = Some (t, p, rest)"
  obtains r o' where "linkReplacement reg (mdLink t p) t p = Inr r"
    and "rewriteLinks reg rest = Inr o'" and "out = r @ o'"
  using assms by (auto simp: rewriteLinks_match split: sum.splits)

lemma rewriteLinks_None_cases:
  assumes "rewriteLinks reg (c # cs) = Inr out" and "matchLink (c # cs) = None"
  obtains o' where "rewriteLinks reg cs = Inr o'" and "out = c # o'"
  using assms by (auto split: sum.splits)

text \<open>
  Rewriting the text after a \<^verbatim>\<open>[\<close> does not change whether the pattern matches at
  that \<^verbatim>\<open>[\<close>, as long as no URL of the registry holds a \<^verbatim>\<open>)\<close> (code unit 41).
\<close>

lemma rewriteLinks_preserves:
  assumes noClose: "\<And>u. u \<in> urlsOf reg \<Longrightarrow> 41 \<notin> set u"
    and "rewriteLinks reg s = Inr out"
  shows "hasClose out = hasClose s \<and> okPath out = okPath s \<and> okOpen out = okOpen s
         \<and> okAfterText out = okAfterText s \<and> okLink out = okLink s"
  using assms(2)
proof (induction "length s" arbitrary: s out rule: less_induct)
  case less
  show ?case
  proof (cases s)
    case Nil
    then show ?thesis using less.prems by simp
  next
    case (Cons c cs)
    show ?thesis
    proof (cases "matchLink s")
      case None
      with less.prems Cons obtain o' where r: "rewriteLinks reg cs = Inr o'" and out: "out = c # o'"
        by (auto split: sum.splits)
      have "length cs < length s" using Cons by simp
      from less.hyps[OF this r] show ?thesis
        unfolding out Cons
        by (simp add: hasClose_Cons okPath_Cons okOpen_Cons okAfterText_Cons okLink_Cons)
    next
      case (Some a)
      obtain t p rest where a: "a = (t, p, rest)" by (cases a)
      from matchLink_elim[OF Some[unfolded a]]
      have s: "s = mdLink t p @ rest" and t: "93 \<notin> set t" "t \<noteq> []" and p: "p \<noteq> []" "41 \<notin> set p"
        by simp_all
      from less.prems Some a obtain r o' where lr: "linkReplacement reg (mdLink t p) t p = Inr r"
        and out: "out = r @ o'"
        by (auto elim: rewriteLinks_Some_cases)
      have "\<exists>u. r = mdLink t u \<and> u \<noteq> [] \<and> 41 \<notin> set u"
      proof (cases "r = mdLink t p")
        case True
        then show ?thesis using p by blast
      next
        case False
        from linkReplacement_cases[OF lr False] obtain u where "r = mdLink t u" "u \<in> urlsOf reg"
          by blast
        then show ?thesis using noClose[of u] by (auto simp: urlsOf_def)
      qed
      then obtain u where r: "r = mdLink t u" and u: "u \<noteq> []" "41 \<notin> set u" by blast
      show ?thesis
        unfolding out r s
        using link_facts[OF t u, of o'] link_facts[OF t p, of rest] by simp
    qed
  qed
qed

section \<open>Replacing the links in the result of the replacement\<close>

text \<open>
  When no URL of the registry holds a \<^verbatim>\<open>)\<close> and the replacement leaves a link to a URL
  of the registry as it is, replacing the links in the result of a replacement changes
  nothing.
\<close>

lemma rewriteLinks_idempotent_if_stable:
  assumes noClose: "\<And>u. u \<in> urlsOf reg \<Longrightarrow> 41 \<notin> set u"
    and stable: "\<And>u t. u \<in> urlsOf reg \<Longrightarrow> linkReplacement reg (mdLink t u) t u = Inr (mdLink t u)"
    and "rewriteLinks reg s = Inr out"
  shows "rewriteLinks reg out = Inr out"
  using assms(3)
proof (induction "length s" arbitrary: s out rule: less_induct)
  case less
  show ?case
  proof (cases s)
    case Nil
    then show ?thesis using less.prems by simp
  next
    case (Cons c cs)
    show ?thesis
    proof (cases "matchLink s")
      case None
      with less.prems Cons obtain o' where r: "rewriteLinks reg cs = Inr o'" and out: "out = c # o'"
        by (auto split: sum.splits)
      have "length cs < length s" using Cons by simp
      from less.hyps[OF this r] have ih: "rewriteLinks reg o' = Inr o'" .
      have "matchLink (c # o') = None"
      proof (cases "c = 91")
        case False
        then show ?thesis by (rule matchLink_not_bracket)
      next
        case True
        have "\<not> okLink cs" using None Cons True matchLink_okLink[of cs] by blast
        then have "\<not> okLink o'" using rewriteLinks_preserves[OF noClose r] by simp
        then show ?thesis using True matchLink_okLink[of o'] by blast
      qed
      then show ?thesis unfolding out using ih by simp
    next
      case (Some a)
      obtain t p rest where a: "a = (t, p, rest)" by (cases a)
      from matchLink_elim[OF Some[unfolded a]]
      have s: "s = mdLink t p @ rest" and t: "93 \<notin> set t" "t \<noteq> []" and p: "p \<noteq> []" "41 \<notin> set p"
        by simp_all
      from less.prems Some a obtain r o' where lr: "linkReplacement reg (mdLink t p) t p = Inr r"
        and rr: "rewriteLinks reg rest = Inr o'" and out: "out = r @ o'"
        by (auto elim: rewriteLinks_Some_cases)
      have "length rest < length s" using s by (simp add: mdLink_def)
      from less.hyps[OF this rr] have ih: "rewriteLinks reg o' = Inr o'" .
      have "\<exists>u. r = mdLink t u \<and> u \<noteq> [] \<and> 41 \<notin> set u
                \<and> linkReplacement reg (mdLink t u) t u = Inr (mdLink t u)"
      proof (cases "r = mdLink t p")
        case True
        then show ?thesis using p lr by blast
      next
        case False
        from linkReplacement_cases[OF lr False] obtain u where "r = mdLink t u" "u \<in> urlsOf reg"
          by blast
        then show ?thesis using noClose[of u] stable[of u t] by (auto simp: urlsOf_def)
      qed
      then obtain u where r: "r = mdLink t u" and u: "u \<noteq> []" "41 \<notin> set u"
        and st: "linkReplacement reg (mdLink t u) t u = Inr (mdLink t u)" by blast
      have m: "matchLink (mdLink t u @ o') = Some (t, u, o')"
        using t u by (simp add: matchLink_intro)
      show ?thesis unfolding out r by (simp add: rewriteLinks_match[OF m] st ih)
    qed
  qed
qed

section \<open>Facts about the pattern and the loop of scanMarkdownLinks\<close>

lemma matchBracketLink_not_bracket: "c \<noteq> 91 \<Longrightarrow> matchBracketLink e (c # cs) = None"
  by (simp add: matchBracketLink_def)

lemma matchScanLink_link:
  assumes "93 \<notin> set linkText" "target \<noteq> []" "41 \<notin> set target"
  shows "matchScanLink (mdLink linkText target @ post) = Some (linkText, target, post)"
    and "matchScanLink (33 # mdLink linkText target @ post) = Some (linkText, target, post)"
  using matchBracketLink_intro[of linkText True target post] assms
  by (simp_all add: matchScanLink_def) (simp add: mdLink_def)

lemma matchScanLink_plain:
  assumes "c \<noteq> 91" and "c = 33 \<Longrightarrow> cs = [] \<or> hd cs \<noteq> 91"
  shows "matchScanLink (c # cs) = None"
  using assms by (cases cs) (auto simp: matchScanLink_def matchBracketLink_def)

lemma matchAllLinks_link:
  assumes "91 \<notin> set pre" "bang = [] \<or> bang = [33]"
    and "93 \<notin> set linkText" "target \<noteq> []" "41 \<notin> set target"
  shows "matchAllLinks (pre @ bang @ mdLink linkText target @ post) = target # matchAllLinks post"
  using assms(1)
proof (induction pre)
  case Nil
  from assms(2) show ?case
  proof
    assume "bang = []"
    then show ?thesis using matchScanLink_link(1)[OF assms(3-5), of post]
      by (simp add: mdLink_def)
  next
    assume "bang = [33]"
    then show ?thesis using matchScanLink_link(2)[OF assms(3-5), of post]
      by simp
  qed
next
  case (Cons c pre)
  then have c: "c \<noteq> 91" and ih: "matchAllLinks (pre @ bang @ mdLink linkText target @ post) = target # matchAllLinks post"
    by simp_all
  show ?case
  proof (cases "c = 33 \<and> pre = [] \<and> bang = []")
    case True
    then show ?thesis using matchScanLink_link(2)[OF assms(3-5), of post] by simp
  next
    case False
    have "c = 33 \<Longrightarrow> pre @ bang @ mdLink linkText target @ post = [] \<or> hd (pre @ bang @ mdLink linkText target @ post) \<noteq> 91"
      using False Cons.prems assms(2) by (cases pre) (auto simp: mdLink_def)
    from matchScanLink_plain[OF c this] show ?thesis using ih by simp
  qed
qed

text \<open>The keys and values of a map after \<open>mapSet\<close>, and of the two maps of a scan.\<close>

lemma mapSet_keys: "fst ` set (mapSet m k v) = insert k (fst ` set m)"
proof (induction m)
  case Nil
  show ?case by simp
next
  case (Cons a m)
  then show ?case by (cases a) (auto split: if_splits)
qed



text \<open>A target is in scope when it starts neither with \<^verbatim>\<open>http://\<close> nor with \<^verbatim>\<open>https://\<close>.\<close>

definition inScope :: "jsstring \<Rightarrow> bool" where
  "inScope path \<longleftrightarrow> \<not> startsWith path (js ''http://'') \<and> \<not> startsWith path (js ''https://'')"

lemma scanStep_documentLinks:
  "fst ` set (documentLinks (scanStep src acc p))
     = fst ` set (documentLinks acc) \<union> (if inScope p \<and> endsWith p (js ''.md'') then {p} else {})"
  by (simp add: scanStep_def inScope_def mapSet_keys)

lemma scanStep_attachmentLinks:
  "fst ` set (attachmentLinks (scanStep src acc p))
     = fst ` set (attachmentLinks acc) \<union> (if inScope p \<and> \<not> endsWith p (js ''.md'') then {p} else {})"
  by (simp add: scanStep_def inScope_def mapSet_keys)

lemma scan_fold_documentLinks:
  "fst ` set (documentLinks (foldl (scanStep src) acc ps))
     = fst ` set (documentLinks acc) \<union> {p \<in> set ps. inScope p \<and> endsWith p (js ''.md'')}"
proof (induction ps arbitrary: acc)
  case Nil
  show ?case by simp
next
  case (Cons p ps)
  have "fst ` set (documentLinks (foldl (scanStep src) (scanStep src acc p) ps))
      = (fst ` set (documentLinks acc) \<union> (if inScope p \<and> endsWith p (js ''.md'') then {p} else {}))
        \<union> {q \<in> set ps. inScope q \<and> endsWith q (js ''.md'')}"
    by (simp only: Cons scanStep_documentLinks)
  also have "\<dots> = fst ` set (documentLinks acc) \<union> {q \<in> set (p # ps). inScope q \<and> endsWith q (js ''.md'')}"
    by auto
  finally show ?case by simp
qed

lemma scan_fold_attachmentLinks:
  "fst ` set (attachmentLinks (foldl (scanStep src) acc ps))
     = fst ` set (attachmentLinks acc) \<union> {p \<in> set ps. inScope p \<and> \<not> endsWith p (js ''.md'')}"
proof (induction ps arbitrary: acc)
  case Nil
  show ?case by simp
next
  case (Cons p ps)
  have "fst ` set (attachmentLinks (foldl (scanStep src) (scanStep src acc p) ps))
      = (fst ` set (attachmentLinks acc) \<union> (if inScope p \<and> \<not> endsWith p (js ''.md'') then {p} else {}))
        \<union> {q \<in> set ps. inScope q \<and> \<not> endsWith q (js ''.md'')}"
    by (simp only: Cons scanStep_attachmentLinks)
  also have "\<dots> = fst ` set (attachmentLinks acc) \<union> {q \<in> set (p # ps). inScope q \<and> \<not> endsWith q (js ''.md'')}"
    by auto
  finally show ?case by simp
qed




section \<open>Links with an empty text\<close>

lemma matchLink_empty_text: "matchLink (mdLink [] target @ post) = None"
  by (simp add: matchLink_def matchBracketLink_def mdLink_def)

lemma sum_case_id: "(case x of Inl e \<Rightarrow> Inl e | Inr out \<Rightarrow> Inr out) = x"
  by (cases x) simp_all

lemma rewriteLinks_empty_text_link:
  assumes "91 \<notin> set pre" "bang = [] \<or> bang = [33]" "91 \<notin> set target"
  shows "rewriteLinks reg (pre @ bang @ mdLink [] target @ post)
     = (case rewriteLinks reg post of
          Inl e \<Rightarrow> Inl e
        | Inr out \<Rightarrow> Inr (pre @ bang @ mdLink [] target @ out))"
proof -
  have p: "91 \<notin> set (pre @ bang)" using assms(1,2) by auto
  have q: "91 \<notin> set (93 # 40 # target @ [41])" using assms(3) by simp
  have "rewriteLinks reg ((pre @ bang) @ mdLink [] target @ post)
      = (case rewriteLinks reg (mdLink [] target @ post) of
           Inl e \<Rightarrow> Inl e | Inr out \<Rightarrow> Inr ((pre @ bang) @ out))"
    using p by (rule rewriteLinks_prefix)
  moreover have "rewriteLinks reg (mdLink [] target @ post)
      = (case rewriteLinks reg ((93 # 40 # target @ [41]) @ post) of
           Inl e \<Rightarrow> Inl e | Inr out \<Rightarrow> Inr (91 # out))"
    using matchLink_empty_text[of target post] by (simp add: mdLink_def)
  moreover have "rewriteLinks reg ((93 # 40 # target @ [41]) @ post)
      = (case rewriteLinks reg post of
           Inl e \<Rightarrow> Inl e | Inr out \<Rightarrow> Inr ((93 # 40 # target @ [41]) @ out))"
    using q by (rule rewriteLinks_prefix)
  ultimately show ?thesis by (simp add: mdLink_def split: sum.splits)
qed

section \<open>What the two searches find\<close>

text \<open>
  The targets found from a position that the search arrives at are a tail of the targets
  found in the whole text, every target found is the second group of a match at a
  position that the search arrives at, and the search passes over a stretch of text in
  which no match starts. The same holds for the replacement.
\<close>

lemma scanArrivesAt_refl: "scanArrivesAt s s"
  by (cases s) simp_all

lemma rewriteArrivesAt_refl: "rewriteArrivesAt s s"
  by (cases s) simp_all

lemma scanArrivesAt_step_None:
  "matchScanLink (c # cs) = None \<Longrightarrow> scanArrivesAt cs r \<Longrightarrow> scanArrivesAt (c # cs) r"
  by simp

lemma scanArrivesAt_step_Some:
  "matchScanLink (c # cs) = Some (t, p, rest) \<Longrightarrow> scanArrivesAt rest r \<Longrightarrow> scanArrivesAt (c # cs) r"
  by simp

lemma rewriteArrivesAt_step_None:
  "matchLink (c # cs) = None \<Longrightarrow> rewriteArrivesAt cs r \<Longrightarrow> rewriteArrivesAt (c # cs) r"
  by simp

lemma rewriteArrivesAt_step_Some:
  "matchLink (c # cs) = Some (t, p, rest) \<Longrightarrow> rewriteArrivesAt rest r \<Longrightarrow> rewriteArrivesAt (c # cs) r"
  by simp

lemma matchLink_shorter: "matchLink s = Some (t, p, rest) \<Longrightarrow> length rest < length s"
  unfolding matchLink_def by (rule matchBracketLink_shorter)

lemma scanArrivesAt_matchAllLinks:
  "scanArrivesAt s r \<Longrightarrow> \<exists>before. matchAllLinks s = before @ matchAllLinks r"
proof (induction "length s" arbitrary: s rule: less_induct)
  case less
  show ?case
  proof (cases "s = r")
    case True
    then have "matchAllLinks s = [] @ matchAllLinks r" by simp
    then show ?thesis by blast
  next
    case False
    show ?thesis
    proof (cases s)
      case Nil
      then show ?thesis using less.prems False by simp
    next
      case (Cons c cs)
      show ?thesis
      proof (cases "matchScanLink s")
        case None
        then have a: "scanArrivesAt cs r" using less.prems False Cons by simp
        have "length cs < length s" using Cons by simp
        from less.hyps[OF this a] obtain b where "matchAllLinks cs = b @ matchAllLinks r" by blast
        then have "matchAllLinks s = b @ matchAllLinks r" using None Cons by simp
        then show ?thesis by blast
      next
        case (Some a)
        obtain t p rest where a: "a = (t, p, rest)" by (cases a)
        have ar: "scanArrivesAt rest r" using less.prems False Cons Some a by simp
        have "length rest < length s" using Some a by (auto dest: matchScanLink_shorter)
        from less.hyps[OF this ar] obtain b where "matchAllLinks rest = b @ matchAllLinks r" by blast
        then have "matchAllLinks s = (p # b) @ matchAllLinks r" using Some a Cons by simp
        then show ?thesis by blast
      qed
    qed
  qed
qed



lemma matchScanLink_bang:
  assumes "bang = [] \<or> bang = [33]" "93 \<notin> set linkText" "target \<noteq> []" "41 \<notin> set target"
  shows "matchScanLink (bang @ mdLink linkText target @ post) = Some (linkText, target, post)"
  using assms(1) matchScanLink_link[OF assms(2-4), of post] by auto

lemma scan_skip:
  "(\<forall>i<length pre. matchScanLink (drop i (pre @ s)) = None) \<Longrightarrow>
   scanArrivesAt (pre @ s) s \<and> matchAllLinks (pre @ s) = matchAllLinks s"
proof (induction pre)
  case Nil
  show ?case by (simp add: scanArrivesAt_refl)
next
  case (Cons c pre)
  have 0: "matchScanLink (c # pre @ s) = None" using Cons.prems by fastforce
  have "\<forall>i<length pre. matchScanLink (drop i (pre @ s)) = None"
  proof (intro allI impI)
    fix i assume "i < length pre"
    then have "Suc i < length (c # pre)" by simp
    from Cons.prems[rule_format, OF this] show "matchScanLink (drop i (pre @ s)) = None" by simp
  qed
  from Cons.IH[OF this] show ?case using 0 by simp
qed

lemma rewrite_skip:
  "(\<forall>i<length pre. matchLink (drop i (pre @ s)) = None) \<Longrightarrow>
   rewriteArrivesAt (pre @ s) s
   \<and> rewriteLinks reg (pre @ s)
      = (case rewriteLinks reg s of Inl e \<Rightarrow> Inl e | Inr out \<Rightarrow> Inr (pre @ out))"
proof (induction pre)
  case Nil
  show ?case by (simp add: rewriteArrivesAt_refl split: sum.splits)
next
  case (Cons c pre)
  have 0: "matchLink (c # pre @ s) = None" using Cons.prems by fastforce
  have "\<forall>i<length pre. matchLink (drop i (pre @ s)) = None"
  proof (intro allI impI)
    fix i assume "i < length pre"
    then have "Suc i < length (c # pre)" by simp
    from Cons.prems[rule_format, OF this] show "matchLink (drop i (pre @ s)) = None" by simp
  qed
  from Cons.IH[OF this] show ?case using 0 by (simp split: sum.splits)
qed

lemma rewriteArrivesAt_out:
  "rewriteArrivesAt s r \<Longrightarrow> rewriteLinks reg s = Inr out \<Longrightarrow>
   \<exists>before after. out = before @ after \<and> rewriteLinks reg r = Inr after"
proof (induction "length s" arbitrary: s out rule: less_induct)
  case less
  show ?case
  proof (cases "s = r")
    case True
    then have "out = [] @ out \<and> rewriteLinks reg r = Inr out" using less.prems by simp
    then show ?thesis by blast
  next
    case False
    show ?thesis
    proof (cases s)
      case Nil
      then show ?thesis using less.prems False by simp
    next
      case (Cons c cs)
      show ?thesis
      proof (cases "matchLink s")
        case None
        then have a: "rewriteArrivesAt cs r" using less.prems False Cons by simp
        from None less.prems(2) Cons obtain o' where r: "rewriteLinks reg cs = Inr o'" and out: "out = c # o'"
          by (auto split: sum.splits)
        have "length cs < length s" using Cons by simp
        from less.hyps[OF this a r] obtain b a' where "o' = b @ a'" "rewriteLinks reg r = Inr a'" by blast
        then have "out = (c # b) @ a' \<and> rewriteLinks reg r = Inr a'" using out by simp
        then show ?thesis by blast
      next
        case (Some a)
        obtain t p rest where a: "a = (t, p, rest)" by (cases a)
        have ar: "rewriteArrivesAt rest r" using less.prems False Cons Some a by simp
        from less.prems(2) Some a obtain rp o' where r: "rewriteLinks reg rest = Inr o'" and out: "out = rp @ o'"
          by (auto simp: rewriteLinks_match split: sum.splits)
        have "length rest < length s" using Some a by (auto dest: matchLink_shorter)
        from less.hyps[OF this ar r] obtain b a' where "o' = b @ a'" "rewriteLinks reg r = Inr a'" by blast
        then have "out = (rp @ b) @ a' \<and> rewriteLinks reg r = Inr a'" using out by simp
        then show ?thesis by blast
      qed
    qed
  qed
qed

lemma rewriteArrivesAt_error:
  "rewriteArrivesAt s r \<Longrightarrow> rewriteLinks reg r = Inl e \<Longrightarrow> \<exists>e'. rewriteLinks reg s = Inl e'"
proof -
  assume a: "rewriteArrivesAt s r" and e: "rewriteLinks reg r = Inl e"
  show ?thesis
  proof (cases "rewriteLinks reg s")
    case (Inl x)
    then show ?thesis by blast
  next
    case (Inr out)
    from rewriteArrivesAt_out[OF a Inr] e show ?thesis by auto
  qed
qed

lemma matchAllLinks_at_link:
  assumes "bang = [] \<or> bang = [33]" "93 \<notin> set linkText" "target \<noteq> []" "41 \<notin> set target"
  shows "matchAllLinks (bang @ mdLink linkText target @ post) = target # matchAllLinks post"
proof -
  obtain c cs where s: "bang @ mdLink linkText target @ post = c # cs"
    using assms(1) by (auto simp: mdLink_def)
  show ?thesis using matchScanLink_bang[OF assms, of post] unfolding s by simp
qed

section \<open>Claim C1: what updateMarkdownLinks does to a link\<close>

text \<open>
  Claim C1 promises, for every link \<^verbatim>\<open>[text](target)\<close> of the cleaned content whose
  target does not start with \<^verbatim>\<open>http\<close>, one of four outcomes, the last being that the
  link is left unchanged. Four inputs on which the code does something else:

  \<^item> a target with a malformed escape sequence, \<^verbatim>\<open>[chart](100%.png)\<close>:
    \<^verbatim>\<open>decodeURIComponent\<close> throws, and so does \<open>updateMarkdownLinks\<close>;
  \<^item> a link with an empty text, \<^verbatim>\<open>[](img.png)\<close>, whose target has an entry in
    \<open>attachmentUrlMap\<close>: the pattern asks for a text of at least one character, and the
    link stays;
  \<^item> a registry whose entry for the normalized target is the empty string: \<^verbatim>\<open>||\<close>
    takes the empty string for a missing entry, and the link gets the entry of the
    normalized target with \<^verbatim>\<open>.md\<close>;
  \<^item> a link inside the target of another link, \<^verbatim>\<open>[x](y [link](sub/doc.md)\<close>: the
    search matches from the first \<^verbatim>\<open>[\<close> to the \<^verbatim>\<open>)\<close>, never tries the pattern at the
    second \<^verbatim>\<open>[\<close>, and \<^verbatim>\<open>[link](sub/doc.md)\<close> stays although \<^verbatim>\<open>sub/doc\<close> has an entry.
\<close>

theorem updateMarkdownLinks_not_every_link_resolved:
  "updateMarkdownLinks exampleRegistry
     (js ''m1\<newline>m2\<newline>m3\<newline>m4\<newline>m5\<newline>m6\<newline>[chart](100%.png)'') = Inl URIError
   \<and> updateMarkdownLinks exampleRegistry
     (js ''m1\<newline>m2\<newline>m3\<newline>m4\<newline>m5\<newline>m6\<newline>[](img.png)'') = Inr (js ''[](img.png)'')
   \<and> updateMarkdownLinks
        \<lparr>attachmentUrlMap = [],
         documentUrlMap = [(js ''sub/doc'', []), (js ''sub/doc.md'', js ''/doc/ID9'')],
         documentIdMap = []\<rparr>
     (js ''m1\<newline>m2\<newline>m3\<newline>m4\<newline>m5\<newline>m6\<newline>[link](sub/doc.md)'') = Inr (js ''[link](/doc/ID9)'')
   \<and> updateMarkdownLinks exampleRegistry
     (js ''m1\<newline>m2\<newline>m3\<newline>m4\<newline>m5\<newline>m6\<newline>[x](y [link](sub/doc.md)'') = Inr (js ''[x](y [link](sub/doc.md)'')"
  by (simp add: updateMarkdownLinks_def exampleRegistry_def js_def cleanedContent_def
      removeHeading_def stripLeadingNewlines_def headingAt_def isLineTerminator_def
      matchLink_def matchBracketLink_def linkReplacement_def startsWith_def endsWith_def
      decodeURIComponent_def stripLeadingSlash_def stripMdSuffix_def parseHexOctet_def hexDigit_def
      truthy_def orElse_def mapGet_def)

lemma rewriteLinks_at_link:
  assumes "[] \<notin> snd ` set (documentUrlMap reg)" and "[] \<notin> snd ` set (attachmentUrlMap reg)"
    and "linkText \<noteq> []" and "93 \<notin> set linkText" and "target \<noteq> []" and "41 \<notin> set target"
  shows "rewriteLinks reg (mdLink linkText target @ rest) =
     (case specLinkTarget reg target of
        Inl e \<Rightarrow> Inl e
      | Inr url \<Rightarrow>
          (case rewriteLinks reg rest of
             Inl e \<Rightarrow> Inl e
           | Inr out \<Rightarrow> Inr (mdLink linkText url @ out)))"
proof -
  have m: "matchLink (mdLink linkText target @ rest) = Some (linkText, target, rest)"
    using assms(3-6) by (simp add: matchLink_intro)
  show ?thesis
    by (simp add: rewriteLinks_match[OF m] linkReplacement_spec[OF assms(1,2)] split: sum.splits)
qed

text \<open>
  Claim C1, amended. Let the registry hold no empty URL, and let \<^verbatim>\<open>[linkText](target)\<close>
  be a link with a text that is not empty and holds no \<^verbatim>\<open>]\<close> and a target that is
  not empty and holds no \<^verbatim>\<open>)\<close>.

  \<^item> When the search of the replacement in the cleaned content arrives at the link: if
    the target cannot be percent-decoded, \<open>updateMarkdownLinks\<close> throws; and every result
    that \<open>updateMarkdownLinks\<close> returns is some text, followed by the link with the
    target that the claim prescribes (\<open>specLinkTarget\<close>), followed by the result of
    replacing the links in the text after the link.
  \<^item> When the cleaned content is \<open>pre\<close>, the link and \<open>rest\<close>, and the pattern matches
    at no position of \<open>pre\<close>, then \<open>pre\<close> is kept as it is: the result is the error of
    the target or of \<open>rest\<close>, or else \<open>pre\<close>, the link with the prescribed target, and
    \<open>rest\<close> with its links replaced.
\<close>

theorem updateMarkdownLinks_rewrites_link:
  assumes "[] \<notin> snd ` set (documentUrlMap reg)" and "[] \<notin> snd ` set (attachmentUrlMap reg)"
    and "linkText \<noteq> []" and "93 \<notin> set linkText" and "target \<noteq> []" and "41 \<notin> set target"
  shows "(rewriteArrivesAt (cleanedContent rawContent) (mdLink linkText target @ rest) \<longrightarrow>
            (\<forall>e. specLinkTarget reg target = Inl e \<longrightarrow>
                 (\<exists>e'. updateMarkdownLinks reg rawContent = Inl e'))
          \<and> (\<forall>out. updateMarkdownLinks reg rawContent = Inr out \<longrightarrow>
                 (\<exists>before after url.
                     specLinkTarget reg target = Inr url
                   \<and> rewriteLinks reg rest = Inr after
                   \<and> out = before @ mdLink linkText url @ after)))
       \<and> (\<forall>pre. cleanedContent rawContent = pre @ mdLink linkText target @ rest
                \<and> (\<forall>i<length pre. matchLink (drop i (cleanedContent rawContent)) = None) \<longrightarrow>
             updateMarkdownLinks reg rawContent =
               (case specLinkTarget reg target of
                  Inl e \<Rightarrow> Inl e
                | Inr url \<Rightarrow>
                    (case rewriteLinks reg rest of
                       Inl e \<Rightarrow> Inl e
                     | Inr out \<Rightarrow> Inr (pre @ mdLink linkText url @ out))))"
proof (intro conjI impI allI)
  fix e
  assume a: "rewriteArrivesAt (cleanedContent rawContent) (mdLink linkText target @ rest)"
    and e: "specLinkTarget reg target = Inl e"
  have "rewriteLinks reg (mdLink linkText target @ rest) = Inl e"
    by (simp add: rewriteLinks_at_link[OF assms] e)
  from rewriteArrivesAt_error[OF a this]
  show "\<exists>e'. updateMarkdownLinks reg rawContent = Inl e'" by (simp add: updateMarkdownLinks_def)
next
  fix out
  assume a: "rewriteArrivesAt (cleanedContent rawContent) (mdLink linkText target @ rest)"
    and o: "updateMarkdownLinks reg rawContent = Inr out"
  from o have "rewriteLinks reg (cleanedContent rawContent) = Inr out"
    by (simp add: updateMarkdownLinks_def)
  from rewriteArrivesAt_out[OF a this] obtain before after0 where
    out: "out = before @ after0" and r: "rewriteLinks reg (mdLink linkText target @ rest) = Inr after0"
    by blast
  from r obtain url after where "specLinkTarget reg target = Inr url" "rewriteLinks reg rest = Inr after"
    "after0 = mdLink linkText url @ after"
    by (auto simp: rewriteLinks_at_link[OF assms] split: sum.splits)
  then show "\<exists>before after url. specLinkTarget reg target = Inr url
                   \<and> rewriteLinks reg rest = Inr after
                   \<and> out = before @ mdLink linkText url @ after"
    using out by blast
next
  fix pre
  assume h: "cleanedContent rawContent = pre @ mdLink linkText target @ rest
                \<and> (\<forall>i<length pre. matchLink (drop i (cleanedContent rawContent)) = None)"
  note c = h[THEN conjunct1]
  note n = h[THEN conjunct2, unfolded c]
  from rewrite_skip[OF n, of reg]
  have "rewriteLinks reg (pre @ mdLink linkText target @ rest)
      = (case rewriteLinks reg (mdLink linkText target @ rest) of
           Inl e \<Rightarrow> Inl e | Inr out \<Rightarrow> Inr (pre @ out))" by simp
  then show "updateMarkdownLinks reg rawContent =
               (case specLinkTarget reg target of
                  Inl e \<Rightarrow> Inl e
                | Inr url \<Rightarrow>
                    (case rewriteLinks reg rest of
                       Inl e \<Rightarrow> Inl e
                     | Inr out \<Rightarrow> Inr (pre @ mdLink linkText url @ out)))"
    by (simp add: updateMarkdownLinks_def c rewriteLinks_at_link[OF assms] split: sum.splits)
qed

text \<open>
  The theorem on the example of claim C1, and on a task list, where a \<^verbatim>\<open>[\<close> that starts no
  link stands in front of the link: both targets of the example are replaced by their
  URLs, the \<^verbatim>\<open>!\<close> in front of the image stays, the link behind the check box is
  replaced, and the link to an \<^verbatim>\<open>https\<close> address is not touched.
\<close>

theorem updateMarkdownLinks_example:
  "updateMarkdownLinks exampleRegistry
     (js ''m1\<newline>m2\<newline>m3\<newline>m4\<newline>m5\<newline>m6\<newline>[link](sub/doc.md)\<newline>![pic](img.png)'')
     = Inr (js ''[link](/doc/ID1)\<newline>![pic](https://files/ID2)'')
   \<and> updateMarkdownLinks exampleRegistry
     (js ''m1\<newline>m2\<newline>m3\<newline>m4\<newline>m5\<newline>m6\<newline>- [ ] see [link](sub/doc.md) or [ext](https://x.com/y.md)'')
     = Inr (js ''- [ ] see [link](/doc/ID1) or [ext](https://x.com/y.md)'')
   \<and> (\<exists>before after.
         updateMarkdownLinks exampleRegistry
           (js ''m1\<newline>m2\<newline>m3\<newline>m4\<newline>m5\<newline>m6\<newline>[link](sub/doc.md)\<newline>![pic](img.png)'')
         = Inr (before @ mdLink (js ''pic'') (js ''https://files/ID2'') @ after))"
proof -
  let ?raw1 = "js ''m1\<newline>m2\<newline>m3\<newline>m4\<newline>m5\<newline>m6\<newline>[link](sub/doc.md)\<newline>![pic](img.png)''"
  let ?raw2 = "js ''m1\<newline>m2\<newline>m3\<newline>m4\<newline>m5\<newline>m6\<newline>- [ ] see [link](sub/doc.md) or [ext](https://x.com/y.md)''"
  have a: "[] \<notin> snd ` set (documentUrlMap exampleRegistry)"
    and b: "[] \<notin> snd ` set (attachmentUrlMap exampleRegistry)"
    by (simp_all add: exampleRegistry_def js_def)
  have l: "js ''link'' \<noteq> []" "93 \<notin> set (js ''link'')" "js ''sub/doc.md'' \<noteq> []" "41 \<notin> set (js ''sub/doc.md'')"
    by (simp_all add: js_def)
  have p: "js ''pic'' \<noteq> []" "93 \<notin> set (js ''pic'')" "js ''img.png'' \<noteq> []" "41 \<notin> set (js ''img.png'')"
    by (simp_all add: js_def)
  have t: "specLinkTarget exampleRegistry (js ''sub/doc.md'') = Inr (js ''/doc/ID1'')"
    by (simp add: specLinkTarget_def exampleRegistry_def js_def startsWith_def endsWith_def
        decodeURIComponent_def stripLeadingSlash_def stripMdSuffix_def mapGet_def)
  have tp: "specLinkTarget exampleRegistry (js ''img.png'') = Inr (js ''https://files/ID2'')"
    by (simp add: specLinkTarget_def exampleRegistry_def js_def startsWith_def endsWith_def
        decodeURIComponent_def stripLeadingSlash_def stripMdSuffix_def mapGet_def)
  have c1: "cleanedContent ?raw1 = [] @ mdLink (js ''link'') (js ''sub/doc.md'') @ js ''\<newline>![pic](img.png)''"
    by (simp add: js_def cleanedContent_def removeHeading_def stripLeadingNewlines_def
        headingAt_def isLineTerminator_def mdLink_def)
  have c1': "cleanedContent ?raw1 = js ''[link](sub/doc.md)\<newline>![pic](img.png)''"
    by (simp add: js_def cleanedContent_def removeHeading_def stripLeadingNewlines_def
        headingAt_def isLineTerminator_def)
  have c2: "cleanedContent ?raw2 = js ''- [ ] see '' @ mdLink (js ''link'') (js ''sub/doc.md'') @ js '' or [ext](https://x.com/y.md)''"
    by (simp add: js_def cleanedContent_def removeHeading_def stripLeadingNewlines_def
        headingAt_def isLineTerminator_def mdLink_def)
  have n1: "\<forall>i<length ([]::jsstring). matchLink (drop i (cleanedContent ?raw1)) = None" by simp
  have n2: "\<forall>i<length (js ''- [ ] see ''). matchLink (drop i (cleanedContent ?raw2)) = None"
    unfolding c2 by (simp add: js_def mdLink_def matchLink_def matchBracketLink_def All_less_Suc)
  have r1: "rewriteLinks exampleRegistry (js ''\<newline>![pic](img.png)'') = Inr (js ''\<newline>![pic](https://files/ID2)'')"
    by (simp add: exampleRegistry_def js_def matchLink_def matchBracketLink_def
        linkReplacement_def startsWith_def endsWith_def decodeURIComponent_def
        stripLeadingSlash_def stripMdSuffix_def truthy_def orElse_def mapGet_def)
  have r2: "rewriteLinks exampleRegistry (js '' or [ext](https://x.com/y.md)'') = Inr (js '' or [ext](https://x.com/y.md)'')"
    by (simp add: exampleRegistry_def js_def matchLink_def matchBracketLink_def
        linkReplacement_def startsWith_def)
  note T1 = updateMarkdownLinks_rewrites_link[OF a b l, of ?raw1 "js ''\<newline>![pic](img.png)''"]
  note T2 = updateMarkdownLinks_rewrites_link[OF a b l, of ?raw2 "js '' or [ext](https://x.com/y.md)''"]
  note T3 = updateMarkdownLinks_rewrites_link[OF a b p, of ?raw1 "[]"]
  from T1[THEN conjunct2, rule_format, of "[]"] c1 n1
  have 1: "updateMarkdownLinks exampleRegistry ?raw1 = Inr (js ''[link](/doc/ID1)\<newline>![pic](https://files/ID2)'')"
    by (simp add: t r1) (simp add: js_def mdLink_def)
  from T2[THEN conjunct2, rule_format, of "js ''- [ ] see ''"] c2 n2
  have 2: "updateMarkdownLinks exampleRegistry ?raw2 = Inr (js ''- [ ] see [link](/doc/ID1) or [ext](https://x.com/y.md)'')"
    by (simp add: t r2) (simp add: js_def mdLink_def)
  have arr: "rewriteArrivesAt (cleanedContent ?raw1) (mdLink (js ''pic'') (js ''img.png'') @ [])"
    unfolding c1' by (simp add: js_def mdLink_def matchLink_def matchBracketLink_def)
  from T3[THEN conjunct1, rule_format, OF arr, THEN conjunct2, rule_format, OF 1]
  obtain before after url where u: "specLinkTarget exampleRegistry (js ''img.png'') = Inr url"
    and o: "js ''[link](/doc/ID1)\<newline>![pic](https://files/ID2)'' = before @ mdLink (js ''pic'') url @ after"
    by blast
  from u tp have "url = js ''https://files/ID2''" by simp
  with o 1 have 3: "\<exists>before after. updateMarkdownLinks exampleRegistry ?raw1
         = Inr (before @ mdLink (js ''pic'') (js ''https://files/ID2'') @ after)"
    by auto
  show ?thesis by (intro conjI 1 2 3)
qed

section \<open>Claim C3: applying updateMarkdownLinks twice\<close>

text \<open>
  Claim C3 says that \<open>updateMarkdownLinks\<close>, applied to its own result, returns that
  result unchanged, for every registry and every content. It does not: every call
  drops six lines (and a heading) again. On six metadata lines followed by seven lines,
  the first call returns the seven lines and the second call returns the last of them.

  The replacement of the links alone, the last step of \<open>updateMarkdownLinks\<close>, is not
  idempotent for every registry either. A second replacement changes the result of the
  first, or throws,

  \<^item> when a URL holds a \<^verbatim>\<open>)\<close>: the target of the new link ends there
    (\<^verbatim>\<open>[t](x.md)\<close>, \<^verbatim>\<open>[t](y)z)\<close>, \<^verbatim>\<open>[t](w)z)\<close>);
  \<^item> when a URL, normalized, is itself a key of \<open>documentUrlMap\<close>
    (\<^verbatim>\<open>[t](a.md)\<close>, \<^verbatim>\<open>[t](/b)\<close>, \<^verbatim>\<open>[t](/c)\<close>);
  \<^item> when a URL cannot be percent-decoded (\<^verbatim>\<open>[t](a.md)\<close>, \<^verbatim>\<open>[t](/doc/%zz)\<close>, then
    \<^verbatim>\<open>URIError\<close>);
  \<^item> when a URL, normalized and with \<^verbatim>\<open>.md\<close> appended, is a key of \<open>documentUrlMap\<close>;
  \<^item> when a URL is a key of \<open>attachmentUrlMap\<close>.
\<close>

theorem updateMarkdownLinks_twice_differs:
  "updateMarkdownLinks exampleRegistry
      (js ''m1\<newline>m2\<newline>m3\<newline>m4\<newline>m5\<newline>m6\<newline>a\<newline>b\<newline>c\<newline>d\<newline>e\<newline>f\<newline>[g](https://x.y/z)'')
     = Inr (js ''a\<newline>b\<newline>c\<newline>d\<newline>e\<newline>f\<newline>[g](https://x.y/z)'')
   \<and> updateMarkdownLinks exampleRegistry (js ''a\<newline>b\<newline>c\<newline>d\<newline>e\<newline>f\<newline>[g](https://x.y/z)'')
     = Inr (js ''[g](https://x.y/z)'')
   \<and> rewriteLinks \<lparr>attachmentUrlMap = [],
                     documentUrlMap = [(js ''x'', js ''y)z''), (js ''y'', js ''w'')],
                     documentIdMap = []\<rparr> (js ''[t](x.md)'') = Inr (js ''[t](y)z)'')
   \<and> rewriteLinks \<lparr>attachmentUrlMap = [],
                     documentUrlMap = [(js ''x'', js ''y)z''), (js ''y'', js ''w'')],
                     documentIdMap = []\<rparr> (js ''[t](y)z)'') = Inr (js ''[t](w)z)'')
   \<and> rewriteLinks \<lparr>attachmentUrlMap = [],
                     documentUrlMap = [(js ''a'', js ''/b''), (js ''b'', js ''/c'')],
                     documentIdMap = []\<rparr> (js ''[t](a.md)'') = Inr (js ''[t](/b)'')
   \<and> rewriteLinks \<lparr>attachmentUrlMap = [],
                     documentUrlMap = [(js ''a'', js ''/b''), (js ''b'', js ''/c'')],
                     documentIdMap = []\<rparr> (js ''[t](/b)'') = Inr (js ''[t](/c)'')
   \<and> rewriteLinks \<lparr>attachmentUrlMap = [],
                     documentUrlMap = [(js ''a'', js ''/doc/%zz'')],
                     documentIdMap = []\<rparr> (js ''[t](a.md)'') = Inr (js ''[t](/doc/%zz)'')
   \<and> rewriteLinks \<lparr>attachmentUrlMap = [],
                     documentUrlMap = [(js ''a'', js ''/doc/%zz'')],
                     documentIdMap = []\<rparr> (js ''[t](/doc/%zz)'') = Inl URIError
   \<and> rewriteLinks \<lparr>attachmentUrlMap = [],
                     documentUrlMap = [(js ''a'', js ''/b''), (js ''b.md'', js ''/c'')],
                     documentIdMap = []\<rparr> (js ''[t](a.md)'') = Inr (js ''[t](/b)'')
   \<and> rewriteLinks \<lparr>attachmentUrlMap = [],
                     documentUrlMap = [(js ''a'', js ''/b''), (js ''b.md'', js ''/c'')],
                     documentIdMap = []\<rparr> (js ''[t](/b)'') = Inr (js ''[t](/c)'')
   \<and> rewriteLinks \<lparr>attachmentUrlMap = [(js ''/b'', js ''/c'')],
                     documentUrlMap = [(js ''a'', js ''/b'')],
                     documentIdMap = []\<rparr> (js ''[t](a.md)'') = Inr (js ''[t](/b)'')
   \<and> rewriteLinks \<lparr>attachmentUrlMap = [(js ''/b'', js ''/c'')],
                     documentUrlMap = [(js ''a'', js ''/b'')],
                     documentIdMap = []\<rparr> (js ''[t](/b)'') = Inr (js ''[t](/c)'')"
  by (simp add: updateMarkdownLinks_def exampleRegistry_def js_def cleanedContent_def
      removeHeading_def stripLeadingNewlines_def headingAt_def isLineTerminator_def
      matchLink_def matchBracketLink_def linkReplacement_def startsWith_def endsWith_def
      decodeURIComponent_def stripLeadingSlash_def stripMdSuffix_def parseHexOctet_def hexDigit_def
      truthy_def orElse_def mapGet_def)

text \<open>
  A URL is settled in a registry when a link to it is looked up in vain: it starts with
  \<^verbatim>\<open>http\<close>, or it can be percent-decoded and neither \<open>documentUrlMap\<close>, under the
  normalized URL and under the normalized URL with \<^verbatim>\<open>.md\<close>, nor \<open>attachmentUrlMap\<close>,
  under the URL itself, holds an entry that is not empty.
\<close>

definition urlSettled :: "registry \<Rightarrow> jsstring \<Rightarrow> bool" where
  "urlSettled reg url \<longleftrightarrow>
     startsWith url (js ''http'') \<or>
     (case decodeURIComponent (stripLeadingSlash url) of
        Inl e \<Rightarrow> False
      | Inr decoded \<Rightarrow>
          \<not> truthy (mapGet (documentUrlMap reg) (stripMdSuffix decoded))
          \<and> \<not> truthy (mapGet (documentUrlMap reg) (stripMdSuffix decoded @ js ''.md''))
          \<and> \<not> truthy (mapGet (attachmentUrlMap reg) url))"

lemma urlSettled_unchanged:
  "urlSettled reg u \<Longrightarrow> linkReplacement reg (mdLink t u) t u = Inr (mdLink t u)"
  by (auto simp: urlSettled_def linkReplacement_def orElse_def Let_def split: sum.splits)

text \<open>
  Claim C3, amended: in every registry in which every URL holds no \<^verbatim>\<open>)\<close> and is
  settled, the replacement of the links, which is the last step of
  \<open>updateMarkdownLinks\<close>, returns its own result unchanged when applied to it, for every
  content.
\<close>

theorem rewriteLinks_idempotent:
  assumes "\<forall>u \<in> urlsOf reg. 41 \<notin> set u \<and> urlSettled reg u"
    and "rewriteLinks reg s = Inr out"
  shows "rewriteLinks reg out = Inr out"
proof -
  have a: "\<And>u. u \<in> urlsOf reg \<Longrightarrow> 41 \<notin> set u" using assms(1) by blast
  have b: "\<And>u t. u \<in> urlsOf reg \<Longrightarrow> linkReplacement reg (mdLink t u) t u = Inr (mdLink t u)"
    using assms(1) urlSettled_unchanged by blast
  show ?thesis by (rule rewriteLinks_idempotent_if_stable[OF a b assms(2)])
qed

text \<open>
  The theorem on the registry and the content of the example of claim C1: both URLs of
  the registry are settled, and the result of the first replacement is not changed by a
  second one.
\<close>

theorem rewriteLinks_idempotent_example:
  "rewriteLinks exampleRegistry (js ''[link](/doc/ID1)\<newline>![pic](https://files/ID2)'')
   = Inr (js ''[link](/doc/ID1)\<newline>![pic](https://files/ID2)'')"
proof -
  have u: "urlsOf exampleRegistry = {js ''/doc/ID1'', js ''https://files/ID2''}"
    by (auto simp: urlsOf_def exampleRegistry_def js_def)
  have s1: "urlSettled exampleRegistry (js ''/doc/ID1'')"
    by (simp add: urlSettled_def exampleRegistry_def js_def startsWith_def endsWith_def
        decodeURIComponent_def stripLeadingSlash_def stripMdSuffix_def truthy_def mapGet_def)
  have s2: "urlSettled exampleRegistry (js ''https://files/ID2'')"
    by (simp add: urlSettled_def js_def startsWith_def)
  have c1: "41 \<notin> set (js ''/doc/ID1'')" "41 \<notin> set (js ''https://files/ID2'')"
    by (simp_all add: js_def)
  have a: "\<forall>u \<in> urlsOf exampleRegistry. 41 \<notin> set u \<and> urlSettled exampleRegistry u"
    unfolding u using s1 s2 c1 by simp
  have c: "rewriteLinks exampleRegistry (js ''[link](sub/doc.md)\<newline>![pic](img.png)'')
             = Inr (js ''[link](/doc/ID1)\<newline>![pic](https://files/ID2)'')"
    by (simp add: exampleRegistry_def js_def matchLink_def matchBracketLink_def
        linkReplacement_def startsWith_def endsWith_def decodeURIComponent_def
        stripLeadingSlash_def stripMdSuffix_def truthy_def orElse_def mapGet_def)
  show ?thesis by (rule rewriteLinks_idempotent[OF a c])
qed

section \<open>Claim C7: what scanMarkdownLinks records\<close>



section \<open>Claim C9: links with an empty text\<close>

text \<open>
  Claim C9 says that every link with an empty text and a target that is not an
  \<^verbatim>\<open>http\<close> address is recorded by \<open>scanMarkdownLinks\<close> and passes through the rewriting
  unchanged. Three contents on which the code does something else:

  \<^item> the target runs to the first \<^verbatim>\<open>)\<close> and can hold a link with a text of its own: in
    \<^verbatim>\<open>[]([a](x.md)\<close> the scan records the target \<^verbatim>\<open>[a](x.md\<close>, and the rewriting, which
    finds the link \<^verbatim>\<open>[a](x.md)\<close> inside it, changes it;
  \<^item> the search of the rewriting can run over the link in a match that starts earlier:
    in \<^verbatim>\<open>[](a[b) ![](img.png) c](d)\<close> the scan records \<^verbatim>\<open>img.png\<close>, and the rewriting
    matches \<^verbatim>\<open>[b) ![](img.png)\<close>, with the text \<^verbatim>\<open>b) ![\<close>, and replaces the target
    \<^verbatim>\<open>img.png\<close> by its URL;
  \<^item> the search of the scan can run over the link in the same way: in
    \<^verbatim>\<open>[a](b [](t.png)\<close> the only target recorded is \<^verbatim>\<open>b [](t.png\<close>, and \<^verbatim>\<open>t.png\<close> is
    not recorded.
\<close>

theorem empty_text_link_not_always_unchanged:
  "scanMarkdownLinks (js ''[]([a](x.md)'') (js ''/x/n.md'')
     = \<lparr>attachmentLinks = [], documentLinks = [(js ''[a](x.md'', js ''/x/n.md'')]\<rparr>
   \<and> rewriteLinks \<lparr>attachmentUrlMap = [], documentUrlMap = [(js ''x'', js ''/doc/1'')], documentIdMap = []\<rparr>
        (js ''[]([a](x.md)'') = Inr (js ''[]([a](/doc/1)'')
   \<and> scanMarkdownLinks (js ''[](a[b) ![](img.png) c](d)'') (js ''/x/n.md'')
     = \<lparr>attachmentLinks = [(js ''a[b'', js ''/x/n.md''), (js ''img.png'', js ''/x/n.md'')], documentLinks = []\<rparr>
   \<and> rewriteLinks exampleRegistry (js ''[](a[b) ![](img.png) c](d)'')
     = Inr (js ''[](a[b) ![](https://files/ID2) c](d)'')
   \<and> scanMarkdownLinks (js ''[a](b [](t.png)'') (js ''/x/n.md'')
     = \<lparr>attachmentLinks = [(js ''b [](t.png'', js ''/x/n.md'')], documentLinks = []\<rparr>"
  by (simp add: scanMarkdownLinks_def scanStep_def exampleRegistry_def js_def matchScanLink_def
        matchLink_def matchBracketLink_def
        linkReplacement_def startsWith_def endsWith_def decodeURIComponent_def
        stripLeadingSlash_def stripMdSuffix_def truthy_def orElse_def mapGet_def)

text \<open>
  Claim C9, amended. Let \<^verbatim>\<open>[](target)\<close> or \<^verbatim>\<open>![](target)\<close> be a link with an empty text
  and a target that is not empty, holds neither \<^verbatim>\<open>)\<close> nor \<^verbatim>\<open>[\<close> and starts neither with
  \<^verbatim>\<open>http://\<close> nor with \<^verbatim>\<open>https://\<close>.

  \<^item> When the search of \<open>scanMarkdownLinks\<close> arrives at the link, its target is recorded:
    as a document link when it ends in \<^verbatim>\<open>.md\<close>, as an attachment link otherwise. The
    search arrives at the link when the pattern of the scan matches at no position of
    the text \<open>pre\<close> in front of it (the last part of the statement).
  \<^item> The pattern of \<open>updateMarkdownLinks\<close> does not match at the \<^verbatim>\<open>[\<close> of the link,
    whatever the registry holds.
  \<^item> When the search of the rewriting in the cleaned content arrives at the \<^verbatim>\<open>[\<close> of the
    link, every result that \<open>updateMarkdownLinks\<close> returns holds the link unchanged,
    followed by the result of replacing the links in the text after it.
  \<^item> When the pattern of \<open>updateMarkdownLinks\<close> matches at no position of the text \<open>pre\<close>
    in front of the \<^verbatim>\<open>[\<close> of the link, the rewriting keeps \<open>pre\<close> and the link as they are
    and goes on with the text after the link.
\<close>

theorem empty_text_link_scanned_not_rewritten:
  assumes "target \<noteq> []" and "41 \<notin> set target" and "91 \<notin> set target"
    and "\<not> startsWith target (js ''http://'')" and "\<not> startsWith target (js ''https://'')"
    and "bang = [] \<or> bang = [33]"
  shows "(scanArrivesAt mdContent (bang @ mdLink [] target @ post) \<longrightarrow>
            target \<in> fst ` set (if endsWith target (js ''.md'')
                                then documentLinks (scanMarkdownLinks mdContent sourcePath)
                                else attachmentLinks (scanMarkdownLinks mdContent sourcePath)))
       \<and> matchLink (mdLink [] target @ post) = None
       \<and> (rewriteArrivesAt (cleanedContent rawContent) (mdLink [] target @ post) \<longrightarrow>
            (\<forall>out. updateMarkdownLinks reg rawContent = Inr out \<longrightarrow>
               (\<exists>before after. out = before @ mdLink [] target @ after
                              \<and> rewriteLinks reg post = Inr after)))
       \<and> (\<forall>pre. (\<forall>i<length pre. matchLink (drop i (pre @ mdLink [] target @ post)) = None) \<longrightarrow>
            rewriteLinks reg (pre @ mdLink [] target @ post)
              = (case rewriteLinks reg post of
                   Inl e \<Rightarrow> Inl e
                 | Inr out \<Rightarrow> Inr (pre @ mdLink [] target @ out)))
       \<and> (\<forall>pre. mdContent = pre @ bang @ mdLink [] target @ post
                \<and> (\<forall>i<length pre. matchScanLink (drop i mdContent) = None) \<longrightarrow>
            target \<in> fst ` set (if endsWith target (js ''.md'')
                                then documentLinks (scanMarkdownLinks mdContent sourcePath)
                                else attachmentLinks (scanMarkdownLinks mdContent sourcePath)))"
proof -
  have L: "rewriteLinks reg (mdLink [] target @ post)
      = (case rewriteLinks reg post of
           Inl e \<Rightarrow> Inl e | Inr out \<Rightarrow> Inr (mdLink [] target @ out))"
    using rewriteLinks_empty_text_link[of "[]" "[]" target reg post] assms(3)
    by (simp split: sum.splits)
  have 1: "scanArrivesAt mdContent (bang @ mdLink [] target @ post) \<longrightarrow>
            target \<in> fst ` set (if endsWith target (js ''.md'')
                                then documentLinks (scanMarkdownLinks mdContent sourcePath)
                                else attachmentLinks (scanMarkdownLinks mdContent sourcePath))"
  proof
    assume a: "scanArrivesAt mdContent (bang @ mdLink [] target @ post)"
    have m: "matchAllLinks (bang @ mdLink [] target @ post) = target # matchAllLinks post"
      using assms(1,2,6) by (intro matchAllLinks_at_link) simp_all
    from scanArrivesAt_matchAllLinks[OF a] obtain before where
      "matchAllLinks mdContent = before @ target # matchAllLinks post" unfolding m by blast
    then have t: "target \<in> set (matchAllLinks mdContent)" by simp
    let ?init = "\<lparr>attachmentLinks = [], documentLinks = []\<rparr>"
    have s: "inScope target" using assms(4,5) by (simp add: inScope_def)
    have d: "endsWith target (js ''.md'') \<Longrightarrow>
          target \<in> fst ` set (documentLinks (scanMarkdownLinks mdContent sourcePath))"
      using scan_fold_documentLinks[of sourcePath ?init "matchAllLinks mdContent"] s t
      by (simp add: scanMarkdownLinks_def)
    have e: "\<not> endsWith target (js ''.md'') \<Longrightarrow>
          target \<in> fst ` set (attachmentLinks (scanMarkdownLinks mdContent sourcePath))"
      using scan_fold_attachmentLinks[of sourcePath ?init "matchAllLinks mdContent"] s t
      by (simp add: scanMarkdownLinks_def)
    show "target \<in> fst ` set (if endsWith target (js ''.md'')
                                then documentLinks (scanMarkdownLinks mdContent sourcePath)
                                else attachmentLinks (scanMarkdownLinks mdContent sourcePath))"
      using d e by simp
  qed
  have 3: "rewriteArrivesAt (cleanedContent rawContent) (mdLink [] target @ post) \<longrightarrow>
            (\<forall>out. updateMarkdownLinks reg rawContent = Inr out \<longrightarrow>
               (\<exists>before after. out = before @ mdLink [] target @ after
                              \<and> rewriteLinks reg post = Inr after))"
  proof (intro impI allI)
    fix out
    assume a: "rewriteArrivesAt (cleanedContent rawContent) (mdLink [] target @ post)"
      and o: "updateMarkdownLinks reg rawContent = Inr out"
    from o have "rewriteLinks reg (cleanedContent rawContent) = Inr out"
      by (simp add: updateMarkdownLinks_def)
    from rewriteArrivesAt_out[OF a this] obtain before after0 where
      out: "out = before @ after0" and r: "rewriteLinks reg (mdLink [] target @ post) = Inr after0"
      by blast
    from r obtain after where "rewriteLinks reg post = Inr after" "after0 = mdLink [] target @ after"
      unfolding L by (auto split: sum.splits)
    then show "\<exists>before after. out = before @ mdLink [] target @ after \<and> rewriteLinks reg post = Inr after"
      using out by blast
  qed
  have 4: "\<forall>pre. (\<forall>i<length pre. matchLink (drop i (pre @ mdLink [] target @ post)) = None) \<longrightarrow>
            rewriteLinks reg (pre @ mdLink [] target @ post)
              = (case rewriteLinks reg post of
                   Inl e \<Rightarrow> Inl e
                 | Inr out \<Rightarrow> Inr (pre @ mdLink [] target @ out))"
  proof (intro allI impI)
    fix pre
    assume n: "\<forall>i<length pre. matchLink (drop i (pre @ mdLink [] target @ post)) = None"
    from rewrite_skip[OF n, of reg]
    show "rewriteLinks reg (pre @ mdLink [] target @ post)
              = (case rewriteLinks reg post of
                   Inl e \<Rightarrow> Inl e
                 | Inr out \<Rightarrow> Inr (pre @ mdLink [] target @ out))"
      unfolding L by (simp split: sum.splits)
  qed
  have 5: "\<forall>pre. mdContent = pre @ bang @ mdLink [] target @ post
                \<and> (\<forall>i<length pre. matchScanLink (drop i mdContent) = None) \<longrightarrow>
            target \<in> fst ` set (if endsWith target (js ''.md'')
                                then documentLinks (scanMarkdownLinks mdContent sourcePath)
                                else attachmentLinks (scanMarkdownLinks mdContent sourcePath))"
  proof (intro allI impI)
    fix pre
    assume h: "mdContent = pre @ bang @ mdLink [] target @ post
                \<and> (\<forall>i<length pre. matchScanLink (drop i mdContent) = None)"
    note c = h[THEN conjunct1]
    note n = h[THEN conjunct2, unfolded c]
    have "scanArrivesAt (pre @ bang @ mdLink [] target @ post) (bang @ mdLink [] target @ post)"
      by (rule scan_skip[OF n, THEN conjunct1])
    then have "scanArrivesAt mdContent (bang @ mdLink [] target @ post)" unfolding c .
    then show "target \<in> fst ` set (if endsWith target (js ''.md'')
                                then documentLinks (scanMarkdownLinks mdContent sourcePath)
                                else attachmentLinks (scanMarkdownLinks mdContent sourcePath))"
      by (rule 1[THEN mp])
  qed
  show ?thesis by (rule conjI[OF 1 conjI[OF matchLink_empty_text conjI[OF 3 conjI[OF 4 5]]]])
qed

text \<open>
  The theorem on \<^verbatim>\<open>[x] see ![](img.png) here\<close>, where a \<^verbatim>\<open>[\<close> that starts no link stands
  in front of the image and \<open>attachmentUrlMap\<close> holds a URL for \<^verbatim>\<open>img.png\<close>: the target
  is recorded as an attachment link, and the rewriting returns the content unchanged.
\<close>

theorem empty_text_link_example:
  "js ''img.png'' \<in> fst ` set (attachmentLinks (scanMarkdownLinks (js ''[x] see ![](img.png) here'') (js ''/x/n.md'')))
   \<and> mapGet (attachmentUrlMap exampleRegistry) (js ''img.png'') = Some (js ''https://files/ID2'')
   \<and> rewriteLinks exampleRegistry (js ''[x] see ![](img.png) here'') = Inr (js ''[x] see ![](img.png) here'')
   \<and> (\<exists>before after. js ''[x] see ![](img.png) here'' = before @ mdLink [] (js ''img.png'') @ after
                     \<and> rewriteLinks exampleRegistry (js '' here'') = Inr after)"
proof -
  let ?s = "js ''[x] see ![](img.png) here''"
  let ?raw = "js ''m1\<newline>m2\<newline>m3\<newline>m4\<newline>m5\<newline>m6\<newline>[x] see ![](img.png) here''"
  have h: "js ''img.png'' \<noteq> []" "41 \<notin> set (js ''img.png'')" "91 \<notin> set (js ''img.png'')"
    "\<not> startsWith (js ''img.png'') (js ''http://'')" "\<not> startsWith (js ''img.png'') (js ''https://'')"
    "([33]::jsstring) = [] \<or> ([33]::jsstring) = [33]"
    by (simp_all add: js_def startsWith_def)
  note T = empty_text_link_scanned_not_rewritten[OF h, of ?s "js '' here''" "js ''/x/n.md''" ?raw exampleRegistry]
  have e: "\<not> endsWith (js ''img.png'') (js ''.md'')" by (simp add: js_def endsWith_def)
  have ar: "scanArrivesAt ?s ([33] @ mdLink [] (js ''img.png'') @ js '' here'')"
    by (simp add: js_def mdLink_def matchScanLink_def matchBracketLink_def)
  have sq: "?s = js ''[x] see '' @ [33] @ mdLink [] (js ''img.png'') @ js '' here''"
    by (simp add: js_def mdLink_def)
  have sn: "\<forall>i<length (js ''[x] see ''). matchScanLink (drop i ?s) = None"
    by (simp add: js_def matchScanLink_def matchBracketLink_def All_less_Suc)
  have 1: "js ''img.png'' \<in> fst ` set (attachmentLinks (scanMarkdownLinks ?s (js ''/x/n.md'')))"
    using T[THEN conjunct2, THEN conjunct2, THEN conjunct2, THEN conjunct2, THEN spec, THEN mp,
        OF conjI[OF sq sn]] T[THEN conjunct1, THEN mp, OF ar] e by simp
  have g: "mapGet (attachmentUrlMap exampleRegistry) (js ''img.png'') = Some (js ''https://files/ID2'')"
    by (simp add: exampleRegistry_def mapGet_def js_def)
  have eq: "js ''[x] see !'' @ mdLink [] (js ''img.png'') @ js '' here'' = ?s"
    by (simp add: js_def mdLink_def)
  have n: "\<forall>i<length (js ''[x] see !''). matchLink (drop i (js ''[x] see !'' @ mdLink [] (js ''img.png'') @ js '' here'')) = None"
    by (simp add: js_def mdLink_def matchLink_def matchBracketLink_def All_less_Suc)
  have post: "rewriteLinks exampleRegistry (js '' here'') = Inr (js '' here'')"
    by (simp add: js_def matchLink_def matchBracketLink_def)
  have 2: "rewriteLinks exampleRegistry ?s = Inr ?s"
    using T[THEN conjunct2, THEN conjunct2, THEN conjunct2, THEN conjunct1, THEN spec, THEN mp, OF n]
    unfolding post eq sum.case .
  have c: "cleanedContent ?raw = ?s"
    by (simp add: js_def cleanedContent_def removeHeading_def stripLeadingNewlines_def
        headingAt_def isLineTerminator_def)
  have ar2: "rewriteArrivesAt (cleanedContent ?raw) (mdLink [] (js ''img.png'') @ js '' here'')"
    unfolding c by (simp add: js_def mdLink_def matchLink_def matchBracketLink_def)
  have u: "updateMarkdownLinks exampleRegistry ?raw = Inr ?s"
    unfolding updateMarkdownLinks_def c by (rule 2)
  have 3: "\<exists>before after. ?s = before @ mdLink [] (js ''img.png'') @ after
                     \<and> rewriteLinks exampleRegistry (js '' here'') = Inr after"
    by (rule T[THEN conjunct2, THEN conjunct2, THEN conjunct1, rule_format, OF ar2 u])
  show ?thesis by (rule conjI[OF 1 conjI[OF g conjI[OF 2 3]]])
qed

section \<open>Claim C5: which directories are media folders\<close>

text \<open>
  The pattern finds the text from the last \<^verbatim>\<open>.\<close> of a name on, when that \<^verbatim>\<open>.\<close> is not the
  last code unit; lower case is taken code unit by code unit.
\<close>

lemma extensionMatch_Some:
  "extensionMatch s = Some e \<longleftrightarrow>
     (\<exists>stem ext. s = stem @ 46 # ext \<and> ext \<noteq> [] \<and> 46 \<notin> set ext \<and> e = 46 # ext)"
proof (induction s)
  case Nil
  then show ?case by simp
next
  case (Cons c cs)
  show ?case
  proof (cases "c = 46 \<and> cs \<noteq> [] \<and> 46 \<notin> set cs")
    case True
    have "\<And>stem ext. c # cs = stem @ 46 # ext \<Longrightarrow> 46 \<notin> set ext \<Longrightarrow> stem = [] \<and> ext = cs"
      using True by (case_tac stem) auto
    then show ?thesis using True by auto
  next
    case False
    have "(\<exists>stem ext. c # cs = stem @ 46 # ext \<and> ext \<noteq> [] \<and> 46 \<notin> set ext \<and> e = 46 # ext)
        \<longleftrightarrow> (\<exists>stem ext. cs = stem @ 46 # ext \<and> ext \<noteq> [] \<and> 46 \<notin> set ext \<and> e = 46 # ext)"
      (is "?l \<longleftrightarrow> ?r")
    proof
      assume ?l
      then obtain stem ext where h: "c # cs = stem @ 46 # ext" "ext \<noteq> []" "46 \<notin> set ext" "e = 46 # ext"
        by blast
      show ?r
      proof (cases stem)
        case Nil
        then show ?thesis using h False by auto
      next
        case (Cons a stem')
        then have "cs = stem' @ 46 # ext" using h by simp
        then show ?thesis using h by blast
      qed
    next
      assume ?r
      then obtain stem ext where h: "cs = stem @ 46 # ext" "ext \<noteq> []" "46 \<notin> set ext" "e = 46 # ext"
        by blast
      then have "c # cs = (c # stem) @ 46 # ext" by simp
      then show ?l using h by blast
    qed
    moreover have "extensionMatch (c # cs) = extensionMatch cs" using False by auto
    ultimately show ?thesis using Cons.IH by simp
  qed
qed

lemma toLowerCase_append: "toLowerCase (a @ b) = toLowerCase a @ toLowerCase b"
  by (simp add: toLowerCase_def)

lemma toLowerCase_Cons_dot: "toLowerCase (46 # b) = 46 # toLowerCase b"
  by (simp add: toLowerCase_def)

lemma toLowerCase_dot: "46 \<in> set (toLowerCase s) \<longleftrightarrow> 46 \<in> set s"
  by (induction s) (auto simp: toLowerCase_def)

lemma toLowerCase_Nil: "toLowerCase s = [] \<longleftrightarrow> s = []"
  by (simp add: toLowerCase_def)

lemma toLowerCase_split:
  "toLowerCase s = a @ 46 # b \<Longrightarrow> \<exists>a' b'. s = a' @ 46 # b' \<and> toLowerCase a' = a \<and> toLowerCase b' = b"
proof (induction s arbitrary: a)
  case Nil
  then show ?case by (simp add: toLowerCase_def)
next
  case (Cons c cs)
  show ?case
  proof (cases a)
    case Nil
    then have "toLowerCase [c] = [46]" "toLowerCase cs = b"
      using Cons.prems by (simp_all add: toLowerCase_def)
    then have "c = 46" by (simp add: toLowerCase_def split: if_splits)
    then show ?thesis using Nil \<open>toLowerCase cs = b\<close> by (intro exI[of _ "[]"] exI[of _ cs]) (simp add: toLowerCase_def)
  next
    case (Cons x a')
    then have "toLowerCase cs = a' @ 46 # b" and x: "toLowerCase [c] = [x]"
      using Cons.prems by (simp_all add: toLowerCase_def)
    from Cons.IH[OF this(1)] obtain a'' b' where
      "cs = a'' @ 46 # b'" "toLowerCase a'' = a'" "toLowerCase b' = b" by blast
    then show ?thesis using Cons x
      by (intro exI[of _ "c # a''"] exI[of _ b']) (simp add: toLowerCase_def)
  qed
qed

lemma isMediaFile_iff:
  "isMediaFile file \<longleftrightarrow>
     (\<exists>stem ext. name file = stem @ 46 # ext \<and> 46 \<notin> set ext
        \<and> toLowerCase ext \<in> {js ''jpg'', js ''jpeg'', js ''png'', js ''gif'', js ''pdf''})"
  (is "?l \<longleftrightarrow> ?r")
proof
  assume ?l
  then obtain e where e: "extensionMatch (toLowerCase (name file)) = Some e" "e \<in> set mediaExtensions"
    by (auto simp: isMediaFile_def split: option.splits)
  from e(1) obtain stem ext where h: "toLowerCase (name file) = stem @ 46 # ext" "ext \<noteq> []"
      "46 \<notin> set ext" "e = 46 # ext"
    unfolding extensionMatch_Some by blast
  from toLowerCase_split[OF h(1)] obtain a' b' where
    s: "name file = a' @ 46 # b'" "toLowerCase a' = stem" "toLowerCase b' = ext" by blast
  have "46 \<notin> set b'" using h(3) s(3) toLowerCase_dot by blast
  moreover have "toLowerCase b' \<in> {js ''jpg'', js ''jpeg'', js ''png'', js ''gif'', js ''pdf''}"
    using e(2) h(4) s(3) by (auto simp: mediaExtensions_def js_def)
  ultimately show ?r using s(1) by blast
next
  assume ?r
  then obtain stem ext where h: "name file = stem @ 46 # ext" "46 \<notin> set ext"
    "toLowerCase ext \<in> {js ''jpg'', js ''jpeg'', js ''png'', js ''gif'', js ''pdf''}" by blast
  have n: "toLowerCase ext \<noteq> []" using h(3) by (auto simp: js_def)
  have d: "46 \<notin> set (toLowerCase ext)" using h(2) toLowerCase_dot by blast
  have "toLowerCase (name file) = toLowerCase stem @ 46 # toLowerCase ext"
    by (simp add: h(1) toLowerCase_append toLowerCase_Cons_dot)
  then have "extensionMatch (toLowerCase (name file)) = Some (46 # toLowerCase ext)"
    unfolding extensionMatch_Some using n d by blast
  moreover have "46 # toLowerCase ext \<in> set mediaExtensions"
    using h(3) by (auto simp: mediaExtensions_def js_def)
  ultimately show ?l by (simp add: isMediaFile_def)
qed

text \<open>
  Claim C5. \<open>isMediaFolder\<close> returns true exactly when the base name of the directory
  starts with \<^verbatim>\<open>media_\<close>, whatever the listing holds, or the listing holds at least one
  file and the name of every file is \<open>stem.ext\<close> with an extension \<open>ext\<close> without \<^verbatim>\<open>.\<close>
  that is, in lower case, one of \<^verbatim>\<open>jpg\<close>, \<^verbatim>\<open>jpeg\<close>, \<^verbatim>\<open>png\<close>, \<^verbatim>\<open>gif\<close>, \<^verbatim>\<open>pdf\<close>. So
  a directory of another name is not a media folder when it is empty or holds no file,
  and when one of its files has another extension or none. Entries that are not files
  do not count. The stem may be empty: a file named \<^verbatim>\<open>.png\<close> has the extension \<^verbatim>\<open>png\<close>
  here.
\<close>

theorem isMediaFolder_spec:
  "isMediaFolder dirPath entries \<longleftrightarrow>
     startsWith (basename dirPath []) (js ''media_'')
     \<or> ((\<exists>f \<in> set entries. isFile f)
        \<and> (\<forall>f \<in> set entries. isFile f \<longrightarrow>
             (\<exists>stem ext. name f = stem @ 46 # ext \<and> 46 \<notin> set ext
                \<and> toLowerCase ext \<in> {js ''jpg'', js ''jpeg'', js ''png'', js ''gif'', js ''pdf''})))"
proof -
  have f: "filter isFile entries = [] \<longleftrightarrow> \<not> (\<exists>f \<in> set entries. isFile f)"
    by (simp add: filter_empty_conv)
  have a: "list_all isMediaFile (filter isFile entries)
      \<longleftrightarrow> (\<forall>f \<in> set entries. isFile f \<longrightarrow> isMediaFile f)"
    by (auto simp: list_all_iff)
  show ?thesis
    unfolding isMediaFolder_def Let_def length_0_conv f a isMediaFile_iff by auto
qed

text \<open>
  The theorem on four directories: one named \<^verbatim>\<open>media_notes\<close> and empty, one empty, one
  with two pictures in upper and mixed case and a subdirectory, and one with a picture
  and a markdown file, where the theorem gives a file whose extension is not in the
  set.
\<close>

theorem isMediaFolder_example:
  "isMediaFolder (js ''/backup/team/media_notes'') []
   \<and> \<not> isMediaFolder (js ''/backup/team/empty'') []
   \<and> isMediaFolder (js ''/backup/team/pics'')
        [\<lparr>name = js ''a.PNG'', kind = File\<rparr>, \<lparr>name = js ''b.tar.Jpeg'', kind = File\<rparr>,
         \<lparr>name = js ''notes'', kind = Directory\<rparr>]
   \<and> \<not> isMediaFolder (js ''/backup/team/docs'')
        [\<lparr>name = js ''a.png'', kind = File\<rparr>, \<lparr>name = js ''b.md'', kind = File\<rparr>]
   \<and> \<not> (\<forall>f \<in> set [\<lparr>name = js ''a.png'', kind = File\<rparr>, \<lparr>name = js ''b.md'', kind = File\<rparr>].
           isFile f \<longrightarrow>
             (\<exists>stem ext. name f = stem @ 46 # ext \<and> 46 \<notin> set ext
                \<and> toLowerCase ext \<in> {js ''jpg'', js ''jpeg'', js ''png'', js ''gif'', js ''pdf''}))"
proof -
  let ?docs = "[\<lparr>name = js ''a.png'', kind = File\<rparr>, \<lparr>name = js ''b.md'', kind = File\<rparr>]"
  have 1: "isMediaFolder (js ''/backup/team/media_notes'') []"
    by (simp add: isMediaFolder_def basename_def basenameLast_def startsWith_def js_def)
  have 2: "\<not> isMediaFolder (js ''/backup/team/empty'') []"
    by (simp add: isMediaFolder_def basename_def basenameLast_def startsWith_def js_def)
  have 3: "isMediaFolder (js ''/backup/team/pics'')
        [\<lparr>name = js ''a.PNG'', kind = File\<rparr>, \<lparr>name = js ''b.tar.Jpeg'', kind = File\<rparr>,
         \<lparr>name = js ''notes'', kind = Directory\<rparr>]"
    by (simp add: isMediaFolder_def basename_def basenameLast_def startsWith_def js_def
        isFile_def isMediaFile_def toLowerCase_def mediaExtensions_def)
  have 4: "\<not> isMediaFolder (js ''/backup/team/docs'') ?docs"
    by (simp add: isMediaFolder_def basename_def basenameLast_def startsWith_def js_def
        isFile_def isMediaFile_def toLowerCase_def mediaExtensions_def)
  have 5: "\<not> (\<forall>f \<in> set ?docs. isFile f \<longrightarrow>
             (\<exists>stem ext. name f = stem @ 46 # ext \<and> 46 \<notin> set ext
                \<and> toLowerCase ext \<in> {js ''jpg'', js ''jpeg'', js ''png'', js ''gif'', js ''pdf''}))"
    using 4 isMediaFolder_spec[of "js ''/backup/team/docs''" ?docs] by (simp add: isFile_def)
  show ?thesis by (rule conjI[OF 1 conjI[OF 2 conjI[OF 3 conjI[OF 4 5]]]])
qed

section \<open>Claim C6: where resolveAttachmentPath looks for an attachment\<close>







section \<open>Claim C8: media folders are skipped\<close>

text \<open>
  The first loop does not look at directories, and the second loop passes over a
  directory that is a media folder. Leaving out directories does not change which
  directories are media folders, since \<open>isMediaFolder\<close> looks at the name and at the
  files only.
\<close>

lemma createFileDocuments_without_directory:
  "createFileDocuments remote cwd dirPath collectionId parent (before @ DirNode entryName children # after) st
   = createFileDocuments remote cwd dirPath collectionId parent (before @ after) st"
proof (induction before arbitrary: st)
  case Nil
  show ?case by simp
next
  case (Cons a before)
  show ?case by (cases a) (simp_all add: Cons.IH Let_def split: sum.splits prod.splits)
qed

lemma createDirectoryDocuments_without_media_folder:
  assumes "isMediaFolder (join [dirPath, entryName]) (map direntOf children)"
  shows "createDirectoryDocuments remote cwd dirPath collectionId parent (before @ DirNode entryName children # after) st
   = createDirectoryDocuments remote cwd dirPath collectionId parent (before @ after) st"
proof (induction before arbitrary: st)
  case Nil
  show ?case using assms by simp
next
  case (Cons a before)
  show ?case
  proof (cases a)
    case (FileNode n c)
    then show ?thesis using Cons.IH by simp
  next
    case (DirNode n ch)
    then show ?thesis using Cons.IH
      by (simp add: Let_def createDocumentStructure.simps split: sum.splits prod.splits del: createDocumentStructure.simps)
  next
    case (OtherNode n)
    then show ?thesis using Cons.IH by simp
  qed
qed

lemma files_withoutMediaFolders:
  "filter isFile (map direntOf (withoutMediaFolders dirPath entries)) = filter isFile (map direntOf entries)"
  by (induction dirPath entries rule: withoutMediaFolders.induct) (simp_all add: Let_def isFile_def)

lemma isMediaFolder_withoutMediaFolders:
  "isMediaFolder p (map direntOf (withoutMediaFolders dirPath entries)) = isMediaFolder p (map direntOf entries)"
  by (simp add: isMediaFolder_def files_withoutMediaFolders)

lemma createFileDocuments_withoutMediaFolders:
  "createFileDocuments remote cwd dirPath collectionId parent (withoutMediaFolders d entries) st
   = createFileDocuments remote cwd dirPath collectionId parent entries st"
proof (induction d entries arbitrary: st rule: withoutMediaFolders.induct)
  case (1 d)
  show ?case by simp
next
  case (2 d entryName children rest)
  then show ?case by (simp add: Let_def)
next
  case (3 d entryName rawContent rest)
  then show ?case by (simp add: Let_def split: sum.splits prod.splits)
next
  case (4 d entryName rest)
  then show ?case by simp
qed

lemma createDocumentStructure_withoutMediaFolders:
  "createDocumentStructure remote cwd dirPath collectionId parent (withoutMediaFolders dirPath entries) st
     = createDocumentStructure remote cwd dirPath collectionId parent entries st"
  "createDirectoryDocuments remote cwd dirPath collectionId parent (withoutMediaFolders dirPath entries) st
     = createDirectoryDocuments remote cwd dirPath collectionId parent entries st"
proof (induction remote cwd dirPath collectionId parent entries st
        and remote cwd dirPath collectionId parent entries st
        rule: createDocumentStructure_createDirectoryDocuments.induct)
  case (1 remote cwd dirPath collectionId parentDocumentId entries st)
  show ?case
    by (simp add: createFileDocuments_withoutMediaFolders 1 split: sum.splits)
next
  case (2 remote cwd dirPath collectionId parentDocumentId st)
  show ?case by simp
next
  case (3 remote cwd dirPath collectionId parentDocumentId entryName children rest st)
  show ?case
  proof (cases "isMediaFolder (join [dirPath, entryName]) (map direntOf children)")
    case True
    then show ?thesis using 3(1) by (simp add: Let_def del: createDocumentStructure.simps)
  next
    case False
    show ?thesis
    proof (cases "createDocument remote entryName [] collectionId parentDocumentId (requests st)")
      case (Inl e)
      then show ?thesis using False
        by (simp add: Let_def isMediaFolder_withoutMediaFolders del: createDocumentStructure.simps)
    next
      case (Inr r)
      obtain dirDocId served where r: "r = (dirDocId, served)" by (cases r)
      note ih2 = 3(2)[OF refl False Inr[unfolded r] refl]
      show ?thesis
      proof (cases "createDocumentStructure remote cwd (join [dirPath, entryName]) collectionId (Some dirDocId)
                        children
                        (registerDocument (relative cwd SLITE_BACKUP_PATH (join [dirPath, entryName])) dirDocId served st)")
        case (Inl e)
        then show ?thesis using False Inr r ih2
          by (simp add: Let_def isMediaFolder_withoutMediaFolders del: createDocumentStructure.simps)
      next
        case st1: (Inr st1)
        note ih3 = 3(3)[OF refl False Inr[unfolded r] refl st1]
        show ?thesis using False Inr r ih2 ih3 st1
          by (simp add: Let_def isMediaFolder_withoutMediaFolders del: createDocumentStructure.simps)
      qed
    qed
  qed
next
  case (4 remote cwd dirPath collectionId parentDocumentId entryName rawContent rest st)
  then show ?case by simp
next
  case (5 remote cwd dirPath collectionId parentDocumentId entryName rest st)
  then show ?case by simp
qed

text \<open>
  Claim C8. A subdirectory that \<open>isMediaFolder\<close> classifies as a media folder is skipped
  entirely: \<open>createDocumentStructure\<close> returns what it returns on the listing without
  that subdirectory, whatever the subdirectory holds and wherever it stands in the
  listing: the same requests to create documents, in the same order, the same entries
  of \<open>documentIdMap\<close> and \<open>documentUrlMap\<close>, and the same error if a request fails. So no
  document is created for the media folder, no entry is made for it, and nothing in it
  is read as a document. The same holds at every depth: the result on a tree is the
  result on the tree without its media folders.
\<close>

theorem createDocumentStructure_skips_media_folders:
  "(\<forall>before entryName children after.
       isMediaFolder (join [dirPath, entryName]) (map direntOf children) \<longrightarrow>
       createDocumentStructure remote cwd dirPath collectionId parent
           (before @ DirNode entryName children # after) st
       = createDocumentStructure remote cwd dirPath collectionId parent (before @ after) st)
   \<and> createDocumentStructure remote cwd dirPath collectionId parent entries st
       = createDocumentStructure remote cwd dirPath collectionId parent
           (withoutMediaFolders dirPath entries) st"
proof (intro conjI allI impI)
  fix before entryName children after
  assume m: "isMediaFolder (join [dirPath, entryName]) (map direntOf children)"
  show "createDocumentStructure remote cwd dirPath collectionId parent
           (before @ DirNode entryName children # after) st
       = createDocumentStructure remote cwd dirPath collectionId parent (before @ after) st"
    by (simp add: createFileDocuments_without_directory
        createDirectoryDocuments_without_media_folder[OF m] cong: sum.case_cong)
next
  show "createDocumentStructure remote cwd dirPath collectionId parent entries st
       = createDocumentStructure remote cwd dirPath collectionId parent
           (withoutMediaFolders dirPath entries) st"
    by (rule createDocumentStructure_withoutMediaFolders(1)[symmetric])
qed

text \<open>
  The theorem on a channel directory with a document, a directory named \<^verbatim>\<open>media_a\<close>
  that holds a markdown file, a directory \<^verbatim>\<open>pics\<close> that holds one picture, and a
  directory \<^verbatim>\<open>sub\<close> with a document: three documents are created, for \<^verbatim>\<open>a.md\<close>,
  for \<^verbatim>\<open>sub\<close> and, below it, for \<^verbatim>\<open>sub/b.md\<close>, and none for the two media folders and
  the markdown file in one of them.
\<close>

theorem createDocumentStructure_example:
  "createDocumentStructure (\<lambda>served request. Some (js ''D'' @ [48 + length served])) (js ''/w'')
       (js ''slite-backup/channels/c'') (js ''C'') None
       [FileNode (js ''a.md'') (js ''m1\<newline>m2\<newline>m3\<newline>m4\<newline>m5\<newline>m6\<newline># A\<newline>body''),
        DirNode (js ''media_a'') [FileNode (js ''n.md'') (js ''x'')],
        DirNode (js ''pics'') [FileNode (js ''q.PNG'') (js ''y'')],
        DirNode (js ''sub'') [FileNode (js ''b.md'') (js ''m1\<newline>m2\<newline>m3\<newline>m4\<newline>m5\<newline>m6\<newline># B\<newline>text'')]]
       \<lparr>attachmentUrlMap = [], documentUrlMap = [], documentIdMap = [], requests = []\<rparr>
   = Inr \<lparr>attachmentUrlMap = [],
          documentUrlMap = [(js ''c/a.md'', js ''/doc/D0''), (js ''c/sub'', js ''/doc/D1''),
                            (js ''c/sub/b.md'', js ''/doc/D2'')],
          documentIdMap = [(js ''c/a.md'', js ''D0''), (js ''c/sub'', js ''D1''),
                           (js ''c/sub/b.md'', js ''D2'')],
          requests = [DocRequest (js ''A'') (js ''body'') (js ''C'') None,
                      DocRequest (js ''sub'') [] (js ''C'') None,
                      DocRequest (js ''B'') (js ''text'') (js ''C'') (Some (js ''D1''))]\<rparr>"
proof -
  let ?remote = "\<lambda>(served::docRequest list) (request::docRequest). Some (js ''D'' @ [48 + length served])"
  let ?d = "js ''slite-backup/channels/c''"
  let ?a = "FileNode (js ''a.md'') (js ''m1\<newline>m2\<newline>m3\<newline>m4\<newline>m5\<newline>m6\<newline># A\<newline>body'')"
  let ?m = "[FileNode (js ''n.md'') (js ''x'')]"
  let ?p = "[FileNode (js ''q.PNG'') (js ''y'')]"
  let ?s = "DirNode (js ''sub'') [FileNode (js ''b.md'') (js ''m1\<newline>m2\<newline>m3\<newline>m4\<newline>m5\<newline>m6\<newline># B\<newline>text'')]"
  let ?st = "\<lparr>attachmentUrlMap = [], documentUrlMap = [], documentIdMap = [], requests = []\<rparr>"
  note T = createDocumentStructure_skips_media_folders[where dirPath = ?d and remote = ?remote
      and cwd = "js ''/w''" and collectionId = "js ''C''" and parent = None and st = ?st]
  have j1: "join [?d, js ''media_a''] = js ''slite-backup/channels/c/media_a''"
    and j2: "join [?d, js ''pics''] = js ''slite-backup/channels/c/pics''"
    and j3: "join [?d, js ''sub''] = js ''slite-backup/channels/c/sub''"
    and j4: "join [?d, js ''a.md''] = js ''slite-backup/channels/c/a.md''"
    and j5: "join [js ''slite-backup/channels/c/sub'', js ''b.md''] = js ''slite-backup/channels/c/sub/b.md''"
    by (simp_all add: join_def normalize_def normalizeString_def js_def)
  have m1: "isMediaFolder (join [?d, js ''media_a'']) (map direntOf ?m)"
    unfolding j1 by (simp add: isMediaFolder_def basename_def basenameLast_def startsWith_def js_def)
  have m2: "isMediaFolder (join [?d, js ''pics'']) (map direntOf ?p)"
    unfolding j2
    by (simp add: isMediaFolder_def basename_def basenameLast_def startsWith_def js_def
        isFile_def isMediaFile_def toLowerCase_def mediaExtensions_def)
  have m3: "\<not> isMediaFolder (js ''slite-backup/channels/c/sub'')
               [\<lparr>name = js ''b.md'', kind = File\<rparr>]"
    by (simp add: isMediaFolder_def basename_def basenameLast_def startsWith_def js_def
        isFile_def isMediaFile_def toLowerCase_def mediaExtensions_def)
  have r1: "relative (js ''/w'') SLITE_BACKUP_PATH (js ''slite-backup/channels/c/a.md'') = js ''c/a.md''"
    and r2: "relative (js ''/w'') SLITE_BACKUP_PATH (js ''slite-backup/channels/c/sub'') = js ''c/sub''"
    and r3: "relative (js ''/w'') SLITE_BACKUP_PATH (js ''slite-backup/channels/c/sub/b.md'') = js ''c/sub/b.md''"
    by (simp_all add: relative_def resolve_def normalizeString_def pathSegments_def
        SLITE_BACKUP_PATH_def js_def)
  have p1: "parseDocumentContent (js ''m1\<newline>m2\<newline>m3\<newline>m4\<newline>m5\<newline>m6\<newline># A\<newline>body'') (js ''a.md'')
              = \<lparr>title = js ''A'', content = js ''body''\<rparr>"
    and p2: "parseDocumentContent (js ''m1\<newline>m2\<newline>m3\<newline>m4\<newline>m5\<newline>m6\<newline># B\<newline>text'') (js ''b.md'')
              = \<lparr>title = js ''B'', content = js ''text''\<rparr>"
    by (simp_all add: parseDocumentContent_def js_def removeHeading_def stripLeadingNewlines_def
        headingAt_def afterHash_def titleGroup_def isLineTerminator_def isWhiteSpace_def trim_def)
  have e: "endsWith (js ''a.md'') (js ''.md'')" "endsWith (js ''b.md'') (js ''.md'')"
    by (simp_all add: endsWith_def js_def)
  have s1: "createDocumentStructure ?remote (js ''/w'') ?d (js ''C'') None
              ([?a] @ DirNode (js ''media_a'') ?m # [DirNode (js ''pics'') ?p, ?s]) ?st
          = createDocumentStructure ?remote (js ''/w'') ?d (js ''C'') None
              ([?a] @ [DirNode (js ''pics'') ?p, ?s]) ?st"
    by (rule T[THEN conjunct1, THEN spec, THEN spec, THEN spec, THEN spec, THEN mp, OF m1])
  have s2: "createDocumentStructure ?remote (js ''/w'') ?d (js ''C'') None
              ([?a] @ DirNode (js ''pics'') ?p # [?s]) ?st
          = createDocumentStructure ?remote (js ''/w'') ?d (js ''C'') None ([?a] @ [?s]) ?st"
    by (rule T[THEN conjunct1, THEN spec, THEN spec, THEN spec, THEN spec, THEN mp, OF m2])
  have s3: "createDocumentStructure ?remote (js ''/w'') ?d (js ''C'') None [?a, ?s] ?st
      = Inr \<lparr>attachmentUrlMap = [],
          documentUrlMap = [(js ''c/a.md'', js ''/doc/D0''), (js ''c/sub'', js ''/doc/D1''),
                            (js ''c/sub/b.md'', js ''/doc/D2'')],
          documentIdMap = [(js ''c/a.md'', js ''D0''), (js ''c/sub'', js ''D1''),
                           (js ''c/sub/b.md'', js ''D2'')],
          requests = [DocRequest (js ''A'') (js ''body'') (js ''C'') None,
                      DocRequest (js ''sub'') [] (js ''C'') None,
                      DocRequest (js ''B'') (js ''text'') (js ''C'') (Some (js ''D1''))]\<rparr>"
    by (simp add: e j3 j4 j5 m3 r1 r2 r3 p1 p2 createDocument_def registerDocument_def truthy_def)
      (simp add: js_def)
  show ?thesis using s1 s2 s3 by simp
qed

end
